theory Spec2Isabelle
  imports Complex_Main
begin

section \<open>Floating-point values\<close>

text \<open>
  The programs compute on IEEE doubles (Python \<^verbatim>\<open>float\<close>, numpy \<^verbatim>\<open>float64\<close>).
  A double is modelled as the real number it denotes, or one of the three special
  values: not-a-number and the two infinities. The arithmetic follows IEEE 754 on
  the special values (a NaN operand gives NaN, every comparison with NaN is false,
  \<open>x / 0\<close> is an infinity or NaN, numpy only warns). A product of two finite
  values underflows as a double product does: when it is at most \<open>2\<^sup>-\<^sup>1\<^sup>0\<^sup>7\<^sup>5\<close>
  in magnitude, half the least subnormal, it is zero (the sign test of the
  bracketed solver depends on it). Apart from that the arithmetic is exact on
  finite values: rounding of the mantissa, overflow and the sign of zero are not
  modelled, and no theorem below rests on an identity of real arithmetic that
  rounding would break.
\<close>

datatype fl = NaN | PInf | MInf | Fin real

fun fl_neg :: "fl \<Rightarrow> fl" where
  "fl_neg NaN = NaN"
| "fl_neg PInf = MInf"
| "fl_neg MInf = PInf"
| "fl_neg (Fin x) = Fin (- x)"

fun fl_add :: "fl \<Rightarrow> fl \<Rightarrow> fl" where
  "fl_add NaN b = NaN"
| "fl_add a NaN = NaN"
| "fl_add PInf MInf = NaN"
| "fl_add MInf PInf = NaN"
| "fl_add PInf b = PInf"
| "fl_add a PInf = PInf"
| "fl_add MInf b = MInf"
| "fl_add a MInf = MInf"
| "fl_add (Fin x) (Fin y) = Fin (x + y)"

fun fl_sign :: "fl \<Rightarrow> real" where
  "fl_sign NaN = 0"
| "fl_sign PInf = 1"
| "fl_sign MInf = - 1"
| "fl_sign (Fin x) = sgn x"

definition signed_inf :: "real \<Rightarrow> fl" where
  "signed_inf s = (if 0 < s then PInf else if s < 0 then MInf else NaN)"

definition underflows :: "real \<Rightarrow> bool" where
  "underflows v = (\<bar>v\<bar> \<le> 1 / 2 ^ 1075)"

fun fl_mul :: "fl \<Rightarrow> fl \<Rightarrow> fl" where
  "fl_mul NaN b = NaN"
| "fl_mul a NaN = NaN"
| "fl_mul (Fin x) (Fin y) = (if underflows (x * y) then Fin 0 else Fin (x * y))"
| "fl_mul a b = signed_inf (fl_sign a * fl_sign b)"

fun fl_div :: "fl \<Rightarrow> fl \<Rightarrow> fl" where
  "fl_div NaN b = NaN"
| "fl_div a NaN = NaN"
| "fl_div (Fin x) (Fin y) = (if y = 0 then signed_inf (sgn x) else Fin (x / y))"
| "fl_div (Fin x) b = Fin 0"
| "fl_div a (Fin y) = signed_inf (fl_sign a * (if y < 0 then - 1 else 1))"
| "fl_div a b = NaN"

fun fl_abs :: "fl \<Rightarrow> fl" where
  "fl_abs NaN = NaN"
| "fl_abs PInf = PInf"
| "fl_abs MInf = PInf"
| "fl_abs (Fin x) = Fin \<bar>x\<bar>"

fun fl_less :: "fl \<Rightarrow> fl \<Rightarrow> bool" where
  "fl_less NaN b = False"
| "fl_less a NaN = False"
| "fl_less a MInf = False"
| "fl_less PInf b = False"
| "fl_less MInf b = True"
| "fl_less a PInf = True"
| "fl_less (Fin x) (Fin y) = (x < y)"

fun fl_le :: "fl \<Rightarrow> fl \<Rightarrow> bool" where
  "fl_le NaN b = False"
| "fl_le a NaN = False"
| "fl_le MInf b = True"
| "fl_le a PInf = True"
| "fl_le (Fin x) (Fin y) = (x \<le> y)"
| "fl_le a b = False"

text \<open>
  The operators of the source (\<^verbatim>\<open>+ - * / abs < <=\<close>) are written with the same
  symbols on \<^typ>\<open>fl\<close>; the classes instantiated carry no axioms.
\<close>

instantiation fl :: "{zero, uminus, plus, minus, times, inverse, abs, ord}"
begin

definition zero_fl_def: "0 = Fin 0"

definition uminus_fl_def: "- a = fl_neg a"

definition plus_fl_def: "a + b = fl_add a b"

definition minus_fl_def: "a - b = fl_add a (fl_neg b)"

definition times_fl_def: "a * b = fl_mul a b"

definition divide_fl_def: "a div b = fl_div a b"

definition inverse_fl_def: "inverse a = fl_div (Fin 1) a"

definition abs_fl_def: "\<bar>a\<bar> = fl_abs a"

definition less_fl_def: "a < b = fl_less a b"

definition less_eq_fl_def: "a \<le> b = fl_le a b"

instance ..

end

text \<open>numpy's \<^verbatim>\<open>sqrt\<close>, \<^verbatim>\<open>log\<close>, \<^verbatim>\<open>exp\<close>, \<^verbatim>\<open>isfinite\<close> and Python's \<^verbatim>\<open>x ** 2\<close>.\<close>

fun np_sqrt :: "fl \<Rightarrow> fl" where
  "np_sqrt NaN = NaN"
| "np_sqrt PInf = PInf"
| "np_sqrt MInf = NaN"
| "np_sqrt (Fin x) = (if x < 0 then NaN else Fin (sqrt x))"

fun np_log :: "fl \<Rightarrow> fl" where
  "np_log NaN = NaN"
| "np_log PInf = PInf"
| "np_log MInf = NaN"
| "np_log (Fin x) = (if x < 0 then NaN else if x = 0 then MInf else Fin (ln x))"

fun np_exp :: "fl \<Rightarrow> fl" where
  "np_exp NaN = NaN"
| "np_exp PInf = PInf"
| "np_exp MInf = Fin 0"
| "np_exp (Fin x) = Fin (exp x)"

fun np_isfinite :: "fl \<Rightarrow> bool" where
  "np_isfinite (Fin x) = True"
| "np_isfinite a = False"

definition py_pow2 :: "fl \<Rightarrow> fl" where
  "py_pow2 a = a * a"

text \<open>
  \<^verbatim>\<open>scipy.stats.norm\<close> is not code of the repository: its \<^verbatim>\<open>cdf\<close> and \<^verbatim>\<open>pdf\<close>
  are parameters of every function that calls them. \<open>norm_ext\<close> extends a
  distribution function and a density on the reals to the special values the way
  scipy does.
\<close>

record scipy_norm =
  cdf :: "fl \<Rightarrow> fl"
  pdf :: "fl \<Rightarrow> fl"

fun ext_cdf :: "(real \<Rightarrow> real) \<Rightarrow> fl \<Rightarrow> fl" where
  "ext_cdf Phi NaN = NaN"
| "ext_cdf Phi PInf = Fin 1"
| "ext_cdf Phi MInf = Fin 0"
| "ext_cdf Phi (Fin x) = Fin (Phi x)"

fun ext_pdf :: "(real \<Rightarrow> real) \<Rightarrow> fl \<Rightarrow> fl" where
  "ext_pdf phi NaN = NaN"
| "ext_pdf phi PInf = Fin 0"
| "ext_pdf phi MInf = Fin 0"
| "ext_pdf phi (Fin x) = Fin (phi x)"

definition norm_ext :: "(real \<Rightarrow> real) \<Rightarrow> (real \<Rightarrow> real) \<Rightarrow> scipy_norm" where
  "norm_ext Phi phi = \<lparr>cdf = ext_cdf Phi, pdf = ext_pdf phi\<rparr>"

section \<open>Exceptions\<close>

datatype py_exn = ValueError | RuntimeError | IndexError | ZeroDivisionError | OverflowError

section \<open>numpy arrays\<close>

text \<open>
  A one-dimensional array is a list. \<open>np_mask a m\<close> is \<^verbatim>\<open>a[m]\<close> for a boolean
  array \<open>m\<close>, \<open>np_where m\<close> is \<^verbatim>\<open>np.where(m)[0]\<close>, \<open>np_take a idx\<close> is \<^verbatim>\<open>a[idx]\<close>
  for an index array, \<open>np_put a idx vals\<close> is \<^verbatim>\<open>a[idx] = vals\<close>, \<open>np_fill a idx c\<close>
  is \<^verbatim>\<open>a[idx] = c\<close> for a scalar, \<open>np_put_mask a m vals\<close> is \<^verbatim>\<open>a[m] = vals\<close>,
  \<open>np_select\<close> is the three-argument \<^verbatim>\<open>np.where\<close> and \<open>np_any m\<close> is \<^verbatim>\<open>m.any()\<close>.
  The \<open>v_\<close> functions are the elementwise operators on two arrays of one length;
  they are applied only where the code has made the lengths equal.
\<close>

definition np_mask :: "'a list \<Rightarrow> bool list \<Rightarrow> 'a list" where
  "np_mask a m = map fst (filter snd (zip a m))"

definition np_where :: "bool list \<Rightarrow> nat list" where
  "np_where m = filter (\<lambda>i. m ! i) [0..<length m]"

definition np_take :: "'a list \<Rightarrow> nat list \<Rightarrow> 'a list" where
  "np_take a idx = map (\<lambda>i. a ! i) idx"

definition np_put :: "'a list \<Rightarrow> nat list \<Rightarrow> 'a list \<Rightarrow> 'a list" where
  "np_put a idx vals = fold (\<lambda>(i, v) b. b[i := v]) (zip idx vals) a"

definition np_fill :: "'a list \<Rightarrow> nat list \<Rightarrow> 'a \<Rightarrow> 'a list" where
  "np_fill a idx c = fold (\<lambda>i b. b[i := c]) idx a"

definition np_put_mask :: "'a list \<Rightarrow> bool list \<Rightarrow> 'a list \<Rightarrow> 'a list" where
  "np_put_mask a m vals = np_put a (np_where m) vals"

definition np_select :: "bool list \<Rightarrow> 'a list \<Rightarrow> 'a list \<Rightarrow> 'a list" where
  "np_select c x y = map (\<lambda>(b, u, v). if b then u else v) (zip c (zip x y))"

definition np_any :: "bool list \<Rightarrow> bool" where
  "np_any m = list_ex (\<lambda>b. b) m"

definition v_add :: "fl list \<Rightarrow> fl list \<Rightarrow> fl list" where
  "v_add x y = map (\<lambda>(u, v). u + v) (zip x y)"

definition v_sub :: "fl list \<Rightarrow> fl list \<Rightarrow> fl list" where
  "v_sub x y = map (\<lambda>(u, v). u - v) (zip x y)"

definition v_mul :: "fl list \<Rightarrow> fl list \<Rightarrow> fl list" where
  "v_mul x y = map (\<lambda>(u, v). u * v) (zip x y)"

definition v_div :: "fl list \<Rightarrow> fl list \<Rightarrow> fl list" where
  "v_div x y = map (\<lambda>(u, v). u / v) (zip x y)"

definition v_and :: "bool list \<Rightarrow> bool list \<Rightarrow> bool list" where
  "v_and x y = map (\<lambda>(u, v). u \<and> v) (zip x y)"

definition v_or :: "bool list \<Rightarrow> bool list \<Rightarrow> bool list" where
  "v_or x y = map (\<lambda>(u, v). u \<or> v) (zip x y)"

definition v_not :: "bool list \<Rightarrow> bool list" where
  "v_not x = map (\<lambda>u. \<not> u) x"

text \<open>
  \<open>np_and\<close> is \<^verbatim>\<open>&\<close> on two boolean arrays whose lengths are not known to agree,
  with numpy's broadcasting: arrays of equal length combine elementwise, an array
  of length one is repeated along the other, and any other pair of lengths raises
  ValueError. Its first argument is the outcome of the expression to its left.
\<close>

definition np_and :: "py_exn + bool list \<Rightarrow> bool list \<Rightarrow> py_exn + bool list" where
  "np_and x y =
    (case x of
       Inl e \<Rightarrow> Inl e
     | Inr a \<Rightarrow>
         if length a = length y then Inr (v_and a y)
         else if length a = 1 then Inr (map (\<lambda>v. hd a \<and> v) y)
         else if length y = 1 then Inr (map (\<lambda>u. u \<and> hd y) a)
         else Inl ValueError)"

section \<open>The bracketed per-row solver (compute\_greeks.py)\<close>

definition IV_LOWER :: fl where
  "IV_LOWER = Fin 0.001"

definition IV_UPPER :: fl where
  "IV_UPPER = Fin 5.0"

definition bs_price :: "scipy_norm \<Rightarrow> fl \<Rightarrow> fl \<Rightarrow> fl \<Rightarrow> fl \<Rightarrow> fl \<Rightarrow> fl \<Rightarrow> bool \<Rightarrow> fl" where
  "bs_price N S K T r q sigma is_call =
    (let sqrt_T = np_sqrt T;
         d1 = (np_log (S / K) + (r - q + Fin 0.5 * py_pow2 sigma) * T) / (sigma * sqrt_T);
         d2 = d1 - sigma * sqrt_T
     in if is_call
        then S * np_exp ((- q) * T) * cdf N d1 - K * np_exp ((- r) * T) * cdf N d2
        else K * np_exp ((- r) * T) * cdf N (- d2) - S * np_exp ((- q) * T) * cdf N (- d1))"

text \<open>
  \<^verbatim>\<open>scipy.optimize.brentq\<close> is not code of the repository either. It is a
  parameter: given the function, the two ends of the bracket, \<^verbatim>\<open>maxiter\<close> and
  \<^verbatim>\<open>xtol\<close>, it returns a root or raises.
\<close>

type_synonym brentq_fn = "(fl \<Rightarrow> fl) \<Rightarrow> fl \<Rightarrow> fl \<Rightarrow> nat \<Rightarrow> fl \<Rightarrow> py_exn + fl"

type_synonym iv_args = "fl \<times> fl \<times> fl \<times> fl \<times> fl \<times> fl \<times> bool"

text \<open>
  What \<^verbatim>\<open>_solve_iv\<close> calls, in the order of the calls: \<^verbatim>\<open>_bs_price\<close> at a
  volatility, or \<^verbatim>\<open>brentq\<close> on a bracket with an iteration cap and a tolerance.
\<close>

datatype iv_event = PriceEval fl | RootFind fl fl nat fl

definition price_diff :: "scipy_norm \<Rightarrow> iv_args \<Rightarrow> fl \<Rightarrow> fl" where
  "price_diff N args sig =
    (case args of (S, K, T, r, q, mkt_price, is_call) \<Rightarrow>
       bs_price N S K T r q sig is_call - mkt_price)"

text \<open>
  \<^verbatim>\<open>try: ... except (ValueError, RuntimeError): return np.nan\<close> around a
  computation: the two classes named are turned into NaN, any other exception goes
  on to the caller.
\<close>

definition except_to_nan :: "py_exn + fl \<Rightarrow> py_exn + fl" where
  "except_to_nan outcome =
    (case outcome of
       Inr x \<Rightarrow> Inr x
     | Inl e \<Rightarrow> if e = ValueError \<or> e = RuntimeError then Inr NaN else Inl e)"

definition solve_iv_traced :: "scipy_norm \<Rightarrow> brentq_fn \<Rightarrow> iv_args \<Rightarrow> iv_event list \<times> (py_exn + fl)" where
  "solve_iv_traced N brentq args =
    (case args of (S, K, T, r, q, mkt_price, is_call) \<Rightarrow>
       if T \<le> 0 \<or> mkt_price \<le> 0 \<or> S \<le> 0 \<or> K \<le> 0 then ([], Inr NaN)
       else
         let f_lo = bs_price N S K T r q IV_LOWER is_call - mkt_price;
             f_hi = bs_price N S K T r q IV_UPPER is_call - mkt_price
         in if 0 < f_lo * f_hi
            then ([PriceEval IV_LOWER, PriceEval IV_UPPER], Inr NaN)
            else ([PriceEval IV_LOWER, PriceEval IV_UPPER,
                   RootFind IV_LOWER IV_UPPER 100 (Fin (1 / 10 ^ 8))],
                  except_to_nan
                    (brentq (\<lambda>sig. bs_price N S K T r q sig is_call - mkt_price)
                       IV_LOWER IV_UPPER 100 (Fin (1 / 10 ^ 8)))))"

definition solve_iv :: "scipy_norm \<Rightarrow> brentq_fn \<Rightarrow> iv_args \<Rightarrow> py_exn + fl" where
  "solve_iv N brentq args = snd (solve_iv_traced N brentq args)"

fun solve_rows :: "('a \<Rightarrow> py_exn + 'b) \<Rightarrow> 'a list \<Rightarrow> 'b list \<Rightarrow> py_exn + 'b list" where
  "solve_rows f [] results = Inr results"
| "solve_rows f (args # rest) results =
    (case f args of Inl e \<Rightarrow> Inl e | Inr v \<Rightarrow> solve_rows f rest (results @ [v]))"

definition solve_iv_chunk :: "scipy_norm \<Rightarrow> brentq_fn \<Rightarrow> iv_args list \<Rightarrow> py_exn + fl list" where
  "solve_iv_chunk N brentq chunk_args = solve_rows (solve_iv N brentq) chunk_args []"

section \<open>The worker orchestrator (main of compute\_greeks.py)\<close>

text \<open>
  \<open>py_range n step\<close> is \<^verbatim>\<open>range(0, n, step)\<close> (a zero step raises), \<open>py_slice\<close>
  is \<^verbatim>\<open>xs[i:j]\<close>, and \<open>slice_assign arr i j vals\<close> is numpy's
  \<^verbatim>\<open>arr[i:j] = vals\<close>: the slice is clipped to the array, a value of the slice's
  length is copied, a value of length one is broadcast, anything else raises.
\<close>

definition py_range :: "nat \<Rightarrow> nat \<Rightarrow> py_exn + nat list" where
  "py_range n step =
    (if step = 0 then Inl ValueError
     else Inr (map (\<lambda>j. j * step) [0..<(n + step - 1) div step]))"

definition py_slice :: "'a list \<Rightarrow> nat \<Rightarrow> nat \<Rightarrow> 'a list" where
  "py_slice xs i j = take (j - i) (drop i xs)"

definition slice_assign :: "fl list \<Rightarrow> nat \<Rightarrow> nat \<Rightarrow> fl list \<Rightarrow> py_exn + fl list" where
  "slice_assign arr start stop vals =
    (let lo = min start (length arr);
         hi = max lo (min stop (length arr));
         k = hi - lo
     in if length vals = k then Inr (take lo arr @ vals @ drop hi arr)
        else if length vals = 1 then Inr (take lo arr @ replicate k (hd vals) @ drop hi arr)
        else Inl ValueError)"

text \<open>
  \<^verbatim>\<open>multiprocessing.Pool(W).imap(g, chunks)\<close> is library code, modelled by its
  contract: the pool needs at least one process, and \<^verbatim>\<open>imap\<close> yields the outcome
  of \<open>g\<close> on every chunk in the order the chunks were submitted, whichever worker
  finishes first; an exception raised in a worker is re-raised when its chunk's turn
  comes. The progress report of the loop only prints.
\<close>

definition pool_imap :: "nat \<Rightarrow> ('a \<Rightarrow> py_exn + 'b) \<Rightarrow> 'a list \<Rightarrow> py_exn + (py_exn + 'b) list" where
  "pool_imap n_workers g chunks =
    (if n_workers < 1 then Inl ValueError else Inr (map g chunks))"

definition N_WORKERS :: "nat \<Rightarrow> nat" where
  "N_WORKERS cpu_count = max 1 (cpu_count - 1)"

fun place_all :: "nat \<Rightarrow> (nat \<times> (py_exn + fl list)) list \<Rightarrow> fl list \<Rightarrow> py_exn + fl list" where
  "place_all sub_chunk [] iv_arr = Inr iv_arr"
| "place_all sub_chunk ((i, Inl e) # rest) iv_arr = Inl e"
| "place_all sub_chunk ((i, Inr result) # rest) iv_arr =
    (let start_idx = i * sub_chunk;
         end_idx = start_idx + length result
     in case slice_assign iv_arr start_idx end_idx result of
          Inl e \<Rightarrow> Inl e
        | Inr iv_arr' \<Rightarrow> place_all sub_chunk rest iv_arr')"

definition split_chunks :: "nat \<Rightarrow> 'a list \<Rightarrow> py_exn + 'a list list" where
  "split_chunks sub_chunk all_args =
    (case py_range (length all_args) sub_chunk of
       Inl e \<Rightarrow> Inl e
     | Inr starts \<Rightarrow> Inr (map (\<lambda>i. py_slice all_args i (i + sub_chunk)) starts))"

definition main_iv :: "scipy_norm \<Rightarrow> brentq_fn \<Rightarrow> nat \<Rightarrow> nat \<Rightarrow> iv_args list \<Rightarrow> py_exn + fl list" where
  "main_iv N brentq n_workers sub_chunk all_args =
    (case split_chunks sub_chunk all_args of
       Inl e \<Rightarrow> Inl e
     | Inr chunks \<Rightarrow>
         let iv_arr = replicate (length all_args) NaN
         in case pool_imap n_workers (solve_iv_chunk N brentq) chunks of
              Inl e \<Rightarrow> Inl e
            | Inr results \<Rightarrow> place_all sub_chunk (enumerate 0 results) iv_arr)"

section \<open>The vectorized Greeks (compute\_greeks.py)\<close>

text \<open>
  The arguments \<open>S\<close>, \<open>K\<close>, \<open>T\<close>, \<open>sigma\<close> and \<open>is_call\<close> are one-dimensional arrays,
  as \<^verbatim>\<open>main\<close> passes them, \<open>r\<close> and \<open>q\<close> are scalars. The mask \<open>valid\<close> is built with
  \<^verbatim>\<open>&\<close>, which raises ValueError on lengths that do not broadcast; past the early
  return, indexing an array with a mask of another length raises IndexError. The
  arrays indexed by \<open>valid\<close> all have the number of its true entries as length, so
  the elementwise operations on them cannot fail.
\<close>

definition compute_greeks_vectorized ::
  "scipy_norm \<Rightarrow> fl list \<Rightarrow> fl list \<Rightarrow> fl list \<Rightarrow> fl \<Rightarrow> fl \<Rightarrow> fl list \<Rightarrow> bool list
    \<Rightarrow> py_exn + (fl list \<times> fl list \<times> fl list \<times> fl list \<times> fl list)" where
  "compute_greeks_vectorized N S K T r q sigma is_call =
    (case np_and (np_and (np_and (np_and (Inr (map np_isfinite sigma)) (map (\<lambda>x. 0 < x) T))
                    (map (\<lambda>x. 0 < x) S)) (map (\<lambda>x. 0 < x) K)) (map (\<lambda>x. 0 < x) sigma) of
       Inl e \<Rightarrow> Inl e
     | Inr valid \<Rightarrow>
    (let delta = replicate (length sigma) NaN;
         gamma = replicate (length sigma) NaN;
         vega = replicate (length sigma) NaN;
         theta = replicate (length sigma) NaN;
         rho = replicate (length sigma) NaN
     in if \<not> np_any valid then Inr (delta, gamma, vega, theta, rho)
        else if length S \<noteq> length valid \<or> length K \<noteq> length valid \<or> length T \<noteq> length valid
                \<or> length sigma \<noteq> length valid \<or> length is_call \<noteq> length valid
        then Inl IndexError
        else
          let Sv = np_mask S valid;
              Kv = np_mask K valid;
              Tv = np_mask T valid;
              sigv = np_mask sigma valid;
              is_call_v = np_mask is_call valid;
              sqrt_T = map np_sqrt Tv;
              d1 = v_div (v_add (map np_log (v_div Sv Kv))
                            (v_mul (map (\<lambda>x. r - q + Fin 0.5 * py_pow2 x) sigv) Tv))
                     (v_mul sigv sqrt_T);
              d2 = v_sub d1 (v_mul sigv sqrt_T);
              exp_qT = map (\<lambda>x. np_exp ((- q) * x)) Tv;
              exp_rT = map (\<lambda>x. np_exp ((- r) * x)) Tv;
              phi_d1 = map (pdf N) d1;
              Nd1 = map (cdf N) d1;
              Nd2 = map (cdf N) d2;
              Nmd1 = map (\<lambda>x. cdf N (- x)) d1;
              Nmd2 = map (\<lambda>x. cdf N (- x)) d2;
              gamma' = np_put_mask gamma valid
                         (v_div (v_mul exp_qT phi_d1) (v_mul (v_mul Sv sigv) sqrt_T));
              vega' = np_put_mask vega valid
                         (map (\<lambda>x. x / Fin 100)
                            (v_mul (v_mul (v_mul Sv exp_qT) phi_d1) sqrt_T));
              delta' = np_put_mask delta valid
                         (np_select is_call_v (v_mul exp_qT Nd1)
                            (v_mul exp_qT (map (\<lambda>x. x - Fin 1) Nd1)));
              common_theta = v_div (map (\<lambda>x. - x) (v_mul (v_mul (v_mul Sv phi_d1) sigv) exp_qT))
                               (map (\<lambda>x. Fin 2 * x) sqrt_T);
              theta_call = v_add (v_sub common_theta
                                    (v_mul (v_mul (map (\<lambda>x. r * x) Kv) exp_rT) Nd2))
                             (v_mul (v_mul (map (\<lambda>x. q * x) Sv) exp_qT) Nd1);
              theta_put = v_sub (v_add common_theta
                                   (v_mul (v_mul (map (\<lambda>x. r * x) Kv) exp_rT) Nmd2))
                            (v_mul (v_mul (map (\<lambda>x. q * x) Sv) exp_qT) Nmd1);
              theta' = np_put_mask theta valid
                         (map (\<lambda>x. x / Fin 365) (np_select is_call_v theta_call theta_put));
              rho_call = map (\<lambda>x. x / Fin 100) (v_mul (v_mul (v_mul Kv Tv) exp_rT) Nd2);
              rho_put = map (\<lambda>x. x / Fin 100)
                          (v_mul (v_mul (v_mul (map (\<lambda>x. - x) Kv) Tv) exp_rT) Nmd2);
              rho' = np_put_mask rho valid (np_select is_call_v rho_call rho_put)
          in Inr (delta', gamma', vega', theta', rho')))"

text \<open>
  The formulas of the specification for one row: \<open>d1\<close> and \<open>d2\<close> of its section 4.1
  and the five Greeks of its section 4.5, with \<open>\<Phi>\<close> and \<open>\<phi>\<close> the \<open>cdf\<close> and the
  \<open>pdf\<close> of the normal distribution, and the validity condition of a row. The
  products and quotients are taken from left to right, as the specification
  writes them, and \<open>\<sigma>\<^sup>2/2\<close> is the product of one half and the square.
\<close>

definition spec_d1 :: "fl \<Rightarrow> fl \<Rightarrow> fl \<Rightarrow> fl \<Rightarrow> fl \<Rightarrow> fl \<Rightarrow> fl" where
  "spec_d1 S K T r q sig =
    (np_log (S / K) + (r - q + Fin 0.5 * py_pow2 sig) * T) / (sig * np_sqrt T)"

definition spec_d2 :: "fl \<Rightarrow> fl \<Rightarrow> fl \<Rightarrow> fl \<Rightarrow> fl \<Rightarrow> fl \<Rightarrow> fl" where
  "spec_d2 S K T r q sig = spec_d1 S K T r q sig - sig * np_sqrt T"

definition spec_valid :: "fl \<Rightarrow> fl \<Rightarrow> fl \<Rightarrow> fl \<Rightarrow> bool" where
  "spec_valid S K T sig = (np_isfinite sig \<and> 0 < T \<and> 0 < S \<and> 0 < K \<and> 0 < sig)"

definition spec_gamma :: "scipy_norm \<Rightarrow> fl \<Rightarrow> fl \<Rightarrow> fl \<Rightarrow> fl \<Rightarrow> fl \<Rightarrow> fl \<Rightarrow> fl" where
  "spec_gamma N S K T r q sig =
    np_exp ((- q) * T) * pdf N (spec_d1 S K T r q sig) / (S * sig * np_sqrt T)"

definition spec_vega :: "scipy_norm \<Rightarrow> fl \<Rightarrow> fl \<Rightarrow> fl \<Rightarrow> fl \<Rightarrow> fl \<Rightarrow> fl \<Rightarrow> fl" where
  "spec_vega N S K T r q sig =
    S * np_exp ((- q) * T) * pdf N (spec_d1 S K T r q sig) * np_sqrt T / Fin 100"

definition spec_delta :: "scipy_norm \<Rightarrow> fl \<Rightarrow> fl \<Rightarrow> fl \<Rightarrow> fl \<Rightarrow> fl \<Rightarrow> fl \<Rightarrow> bool \<Rightarrow> fl" where
  "spec_delta N S K T r q sig is_call =
    (if is_call then np_exp ((- q) * T) * cdf N (spec_d1 S K T r q sig)
     else np_exp ((- q) * T) * (cdf N (spec_d1 S K T r q sig) - Fin 1))"

definition spec_common_theta :: "scipy_norm \<Rightarrow> fl \<Rightarrow> fl \<Rightarrow> fl \<Rightarrow> fl \<Rightarrow> fl \<Rightarrow> fl \<Rightarrow> fl" where
  "spec_common_theta N S K T r q sig =
    (- (S * pdf N (spec_d1 S K T r q sig) * sig * np_exp ((- q) * T))) / (Fin 2 * np_sqrt T)"

definition spec_theta :: "scipy_norm \<Rightarrow> fl \<Rightarrow> fl \<Rightarrow> fl \<Rightarrow> fl \<Rightarrow> fl \<Rightarrow> fl \<Rightarrow> bool \<Rightarrow> fl" where
  "spec_theta N S K T r q sig is_call =
    (if is_call
     then (spec_common_theta N S K T r q sig
             - r * K * np_exp ((- r) * T) * cdf N (spec_d2 S K T r q sig)
             + q * S * np_exp ((- q) * T) * cdf N (spec_d1 S K T r q sig)) / Fin 365
     else (spec_common_theta N S K T r q sig
             + r * K * np_exp ((- r) * T) * cdf N (- spec_d2 S K T r q sig)
             - q * S * np_exp ((- q) * T) * cdf N (- spec_d1 S K T r q sig)) / Fin 365)"

definition spec_rho :: "scipy_norm \<Rightarrow> fl \<Rightarrow> fl \<Rightarrow> fl \<Rightarrow> fl \<Rightarrow> fl \<Rightarrow> fl \<Rightarrow> bool \<Rightarrow> fl" where
  "spec_rho N S K T r q sig is_call =
    (if is_call then K * T * np_exp ((- r) * T) * cdf N (spec_d2 S K T r q sig) / Fin 100
     else (- K) * T * np_exp ((- r) * T) * cdf N (- spec_d2 S K T r q sig) / Fin 100)"

section \<open>The vectorized Newton-Raphson solver (calculate\_vi\_2024.py)\<close>

text \<open>
  The three arrays the loop mutates. \<open>iv_init n\<close> is their value before the loop:
  every trial volatility is the seed 0.3, every result is NaN, every row is active.
\<close>

record iv_state =
  st_sigma :: "fl list"
  st_result :: "fl list"
  st_active :: "bool list"

definition iv_init :: "nat \<Rightarrow> iv_state" where
  "iv_init n = \<lparr>st_sigma = replicate n (Fin 0.3), st_result = replicate n NaN,
                st_active = replicate n True\<rparr>"

text \<open>The body of the loop, after the test of \<^verbatim>\<open>active.any()\<close>.\<close>

definition iv_iteration ::
  "scipy_norm \<Rightarrow> fl list \<Rightarrow> fl list \<Rightarrow> fl list \<Rightarrow> fl list \<Rightarrow> fl \<Rightarrow> bool list \<Rightarrow> fl
    \<Rightarrow> iv_state \<Rightarrow> iv_state" where
  "iv_iteration N market_price S K T r is_call tol st =
    (let s = np_mask (st_sigma st) (st_active st);
         mp = np_mask market_price (st_active st);
         s_price = np_mask S (st_active st);
         k = np_mask K (st_active st);
         t = np_mask T (st_active st);
         call = np_mask is_call (st_active st);
         sqrt_t = map np_sqrt t;
         d1 = v_div (v_add (map np_log (v_div s_price k))
                       (v_mul (map (\<lambda>x. r + Fin 0.5 * py_pow2 x) s) t))
                (v_mul s sqrt_t);
         d2 = v_sub d1 (v_mul s sqrt_t);
         call_price = v_sub (v_mul s_price (map (cdf N) d1))
                        (v_mul (v_mul k (map (\<lambda>x. np_exp ((- r) * x)) t)) (map (cdf N) d2));
         put_price = v_sub (v_mul (v_mul k (map (\<lambda>x. np_exp ((- r) * x)) t))
                              (map (\<lambda>x. cdf N (- x)) d2))
                       (v_mul s_price (map (\<lambda>x. cdf N (- x)) d1));
         bs_price = np_select call call_price put_price;
         vega = v_mul (v_mul s_price (map (pdf N) d1)) sqrt_t;
         diff = v_sub bs_price mp;
         converged = map (\<lambda>x. \<bar>x\<bar> < tol) diff;
         bad_vega = map (\<lambda>x. x < Fin (1 / 10 ^ 12)) vega;
         active_indices = np_where (st_active st);
         converged_idx = np_mask active_indices converged;
         result' = np_put (st_result st) converged_idx (np_take (st_sigma st) converged_idx);
         failed_idx = np_mask active_indices (v_and bad_vega (v_not converged));
         still_going = v_and (v_not converged) (v_not bad_vega);
         update_idx = np_mask active_indices still_going;
         sigma' = np_put (st_sigma st) update_idx
                    (v_sub (np_take (st_sigma st) update_idx)
                       (v_div (np_mask diff still_going) (np_mask vega still_going)));
         bad_sigma = v_or (map (\<lambda>x. x \<le> 0) (np_take sigma' update_idx))
                       (map (\<lambda>x. Fin 10 < x) (np_take sigma' update_idx));
         bad_sigma_idx = np_mask update_idx bad_sigma;
         sigma'' = np_fill sigma' bad_sigma_idx NaN;
         active' = np_fill (np_fill (np_fill (st_active st) converged_idx False) failed_idx False)
                     bad_sigma_idx False
     in \<lparr>st_sigma = sigma'', st_result = result', st_active = active'\<rparr>)"

text \<open>
  The loop over \<^verbatim>\<open>range(max_iter)\<close>. Indexing \<^verbatim>\<open>S\<close>, \<^verbatim>\<open>K\<close>, \<^verbatim>\<open>T\<close> or
  \<^verbatim>\<open>is_call\<close> with the mask raises IndexError when its length is not that of the
  mask, before the body has changed anything.
\<close>

fun iv_loop ::
  "scipy_norm \<Rightarrow> fl list \<Rightarrow> fl list \<Rightarrow> fl list \<Rightarrow> fl list \<Rightarrow> fl \<Rightarrow> bool list \<Rightarrow> fl
    \<Rightarrow> nat \<Rightarrow> iv_state \<Rightarrow> py_exn + iv_state" where
  "iv_loop N market_price S K T r is_call tol 0 st = Inr st"
| "iv_loop N market_price S K T r is_call tol (Suc n) st =
    (if \<not> np_any (st_active st) then Inr st
     else if length S \<noteq> length (st_active st) \<or> length K \<noteq> length (st_active st)
             \<or> length T \<noteq> length (st_active st) \<or> length is_call \<noteq> length (st_active st)
     then Inl IndexError
     else iv_loop N market_price S K T r is_call tol n
            (iv_iteration N market_price S K T r is_call tol st))"

definition vectorized_iv_state ::
  "scipy_norm \<Rightarrow> fl list \<Rightarrow> fl list \<Rightarrow> fl list \<Rightarrow> fl list \<Rightarrow> fl \<Rightarrow> bool list \<Rightarrow> fl \<Rightarrow> nat
    \<Rightarrow> py_exn + iv_state" where
  "vectorized_iv_state N market_price S K T r is_call tol max_iter =
    iv_loop N market_price S K T r is_call tol max_iter (iv_init (length market_price))"

definition vectorized_iv ::
  "scipy_norm \<Rightarrow> fl list \<Rightarrow> fl list \<Rightarrow> fl list \<Rightarrow> fl list \<Rightarrow> fl \<Rightarrow> bool list \<Rightarrow> fl \<Rightarrow> nat
    \<Rightarrow> py_exn + fl list" where
  "vectorized_iv N market_price S K T r is_call tol max_iter =
    (case vectorized_iv_state N market_price S K T r is_call tol max_iter of
       Inl e \<Rightarrow> Inl e
     | Inr st \<Rightarrow> Inr (st_result st))"

text \<open>
  What one iteration does to one row, in the words of section 4.2 of the
  specification: the price difference and the vega of the row at its trial
  volatility, then the checks in the order converged, degenerate vega, Newton
  step, divergent.
\<close>

definition row_d1 :: "fl \<Rightarrow> fl \<Rightarrow> fl \<Rightarrow> fl \<Rightarrow> fl \<Rightarrow> fl" where
  "row_d1 r sig S K T = (np_log (S / K) + (r + Fin 0.5 * py_pow2 sig) * T) / (sig * np_sqrt T)"

definition row_diff :: "scipy_norm \<Rightarrow> fl \<Rightarrow> fl \<Rightarrow> fl \<Rightarrow> fl \<Rightarrow> fl \<Rightarrow> fl \<Rightarrow> bool \<Rightarrow> fl" where
  "row_diff N r sig mp S K T call =
    (let d1 = row_d1 r sig S K T;
         d2 = d1 - sig * np_sqrt T
     in (if call then S * cdf N d1 - K * np_exp ((- r) * T) * cdf N d2
         else K * np_exp ((- r) * T) * cdf N (- d2) - S * cdf N (- d1)) - mp)"

definition row_vega :: "scipy_norm \<Rightarrow> fl \<Rightarrow> fl \<Rightarrow> fl \<Rightarrow> fl \<Rightarrow> fl \<Rightarrow> fl" where
  "row_vega N r sig S K T = S * pdf N (row_d1 r sig S K T) * np_sqrt T"

definition row_step :: "fl \<Rightarrow> fl \<Rightarrow> fl \<Rightarrow> fl \<times> fl \<times> bool \<Rightarrow> fl \<times> fl \<times> bool" where
  "row_step tol diff vega row =
    (case row of (sig, res, act) \<Rightarrow>
       if \<not> act then (sig, res, False)
       else if \<bar>diff\<bar> < tol then (sig, sig, False)
       else if vega < Fin (1 / 10 ^ 12) then (sig, res, False)
       else if sig - diff / vega \<le> 0 \<or> Fin 10 < sig - diff / vega then (NaN, res, False)
       else (sig - diff / vega, res, True))"

text \<open>
  \<open>iv_after \<dots> k\<close> is the value of the three arrays after the body of the loop
  has run \<open>k\<close> times on \<open>iv_init\<close>, and \<open>iv_shape n\<close> says that the three
  arrays have length \<open>n\<close>.
\<close>

definition iv_after ::
  "scipy_norm \<Rightarrow> fl list \<Rightarrow> fl list \<Rightarrow> fl list \<Rightarrow> fl list \<Rightarrow> fl \<Rightarrow> bool list \<Rightarrow> fl \<Rightarrow> nat
    \<Rightarrow> iv_state" where
  "iv_after N market_price S K T r is_call tol k =
    ((iv_iteration N market_price S K T r is_call tol) ^^ k) (iv_init (length market_price))"

definition iv_shape :: "nat \<Rightarrow> iv_state \<Rightarrow> bool" where
  "iv_shape n st =
    (length (st_sigma st) = n \<and> length (st_result st) = n \<and> length (st_active st) = n)"

section \<open>The scalar Newton-Raphson solver (VI.py)\<close>

text \<open>
  The script calls \<^verbatim>\<open>implied_volatility\<close> with Python numbers, so \<^verbatim>\<open>S/K\<close> is
  Python's division, which raises ZeroDivisionError for a zero strike; every other
  operation has a numpy operand and only warns. The option type is \<open>True\<close> for
  \<^verbatim>\<open>"call"\<close>. When the budget is used up the function raises ValueError.
\<close>

fun implied_volatility_loop ::
  "scipy_norm \<Rightarrow> fl \<Rightarrow> fl \<Rightarrow> fl \<Rightarrow> fl \<Rightarrow> fl \<Rightarrow> bool \<Rightarrow> fl \<Rightarrow> nat \<Rightarrow> fl \<Rightarrow> py_exn + fl" where
  "implied_volatility_loop N market_price S K T r is_call tol 0 sigma = Inl ValueError"
| "implied_volatility_loop N market_price S K T r is_call tol (Suc n) sigma =
    (if K = Fin 0 then Inl ZeroDivisionError else
     let d1 = (np_log (S / K) + (r + Fin 0.5 * py_pow2 sigma) * T) / (sigma * np_sqrt T);
         d2 = d1 - sigma * np_sqrt T;
         price = (if is_call then S * cdf N d1 - K * np_exp ((- r) * T) * cdf N d2
                  else K * np_exp ((- r) * T) * cdf N (- d2) - S * cdf N (- d1));
         vega = S * pdf N d1 * np_sqrt T;
         diff = price - market_price
     in if \<bar>diff\<bar> < tol then Inr sigma
        else implied_volatility_loop N market_price S K T r is_call tol n (sigma - diff / vega))"

definition implied_volatility ::
  "scipy_norm \<Rightarrow> fl \<Rightarrow> fl \<Rightarrow> fl \<Rightarrow> fl \<Rightarrow> fl \<Rightarrow> bool \<Rightarrow> fl \<Rightarrow> nat \<Rightarrow> py_exn + fl" where
  "implied_volatility N market_price S K T r is_call tol max_iter =
    implied_volatility_loop N market_price S K T r is_call tol max_iter (Fin 0.3)"

section \<open>Instances for the examples\<close>

text \<open>
  A stand-in for the normal distribution whose values are rational (0 below zero,
  one half up to 1, 1 above, density 1) and a stand-in for the root-finder that
  returns an end of the bracket where the function is zero and raises otherwise.
  The examples evaluate the solvers on them.
\<close>

definition test_norm :: scipy_norm where
  "test_norm = norm_ext (\<lambda>x. if x < 0 then 0 else if 1 < x then 1 else 1 / 2) (\<lambda>x. 1)"

definition test_brentq :: brentq_fn where
  "test_brentq f a b maxiter xtol =
    (if f a = 0 then Inr a else if f b = 0 then Inr b
     else if 0 < f a * f b then Inl ValueError else Inl RuntimeError)"



text \<open>
  A batch of four calls for the Newton solver, with zero rate and one year to
  expiry: at the seed the first converges, the second takes a Newton step, the
  third steps out of \<open>(0, 10]\<close> and the fourth has a vega below \<open>1e-12\<close>.
\<close>

definition ex_price :: "fl list" where
  "ex_price = [Fin (1 / 2), Fin 1, Fin 20, Fin 1]"

definition ex_spot :: "fl list" where
  "ex_spot = [Fin 1, Fin 1, Fin 1, Fin (1 / 10000000000000)]"

definition ex_expiry :: "fl list" where
  "ex_expiry = [Fin 1, Fin 1, Fin 1, Fin 1]"

definition ex_call :: "bool list" where
  "ex_call = [True, True, True, True]"

section \<open>Arithmetic and evaluation lemmas\<close>

lemmas fl_ops = zero_fl_def uminus_fl_def plus_fl_def minus_fl_def times_fl_def divide_fl_def
  abs_fl_def less_fl_def less_eq_fl_def

lemmas np_defs = np_mask_def np_where_def np_take_def np_put_def np_fill_def np_put_mask_def
  np_select_def np_any_def v_add_def v_sub_def v_mul_def v_div_def v_and_def v_or_def v_not_def

lemma underflows_zero [simp]: "underflows 0"
  by (simp add: underflows_def)

lemma underflows_normal [simp]:
  assumes "1 / 10 ^ 30 \<le> \<bar>v\<bar>"
  shows "underflows v = False"
proof -
  have "(1::real) / 2 ^ 1075 < 1 / 10 ^ 30" by simp
  then have "1 / 2 ^ 1075 < \<bar>v\<bar>" using assms by (rule less_le_trans)
  then show ?thesis by (simp only: underflows_def not_le [symmetric] simp_thms)
qed

lemma fl_nan:
  "a * NaN = NaN" "NaN * a = NaN" "a + NaN = NaN" "NaN + a = NaN" "a - NaN = NaN" "NaN - a = NaN"
  "a / NaN = NaN" "NaN / a = NaN" "\<not> NaN < a" "\<not> a < NaN" "\<bar>NaN :: fl\<bar> = NaN" "- NaN = (NaN :: fl)"
  by (cases a; simp add: fl_ops)+

lemma fl_zero_mult_not_pos: "\<not> 0 < (0::fl) * b" "\<not> 0 < b * (0::fl)"
  by (cases b; simp add: fl_ops signed_inf_def)+

lemma test_norm_simps [simp]:
  "cdf test_norm (Fin x) = Fin (if x < 0 then 0 else if 1 < x then 1 else 1 / 2)"
  "pdf test_norm (Fin x) = Fin 1"
  by (simp_all add: test_norm_def norm_ext_def)

section \<open>The bracketed per-row solver\<close>

lemma price_diff_eq:
  "price_diff N (S, K, T, r, q, mkt_price, is_call) =
    (\<lambda>sig. bs_price N S K T r q sig is_call - mkt_price)"
  by (rule ext) (simp add: price_diff_def)

lemma price_diff_example:
  "price_diff test_norm (Fin 1, Fin 1, Fin 1, Fin 0, Fin 0, Fin m, True) IV_LOWER = Fin (1 / 2 - m)"
  "price_diff test_norm (Fin 1, Fin 1, Fin 1, Fin 0, Fin 0, Fin m, True) IV_UPPER = Fin (1 - m)"
  by (simp_all add: price_diff_def bs_price_def Let_def IV_LOWER_def IV_UPPER_def fl_ops py_pow2_def)

lemma solve_iv_cases:
  "solve_iv N brentq args = Inr NaN
   \<or> solve_iv N brentq args
      = except_to_nan (brentq (price_diff N args) IV_LOWER IV_UPPER 100 (Fin (1 / 10 ^ 8)))"
  by (cases args) (simp add: solve_iv_def solve_iv_traced_def Let_def price_diff_eq)

lemma solve_rows_all_ok:
  "(\<And>x. x \<in> set xs \<Longrightarrow> \<exists>v. f x = Inr v) \<Longrightarrow>
   \<exists>vs. solve_rows f xs acc = Inr (acc @ vs) \<and> length vs = length xs"
proof (induction xs arbitrary: acc)
  case Nil
  then show ?case by simp
next
  case (Cons a xs)
  from Cons.prems obtain v where v: "f a = Inr v" by auto
  from Cons.IH [of "acc @ [v]"] Cons.prems
  obtain vs where "solve_rows f xs (acc @ [v]) = Inr ((acc @ [v]) @ vs)" "length vs = length xs"
    by auto
  with v show ?case by (intro exI [of _ "v # vs"]) simp
qed









text \<open>
  C8. When the root-finder raises only ValueError and RuntimeError (the two
  exceptions scipy's \<^verbatim>\<open>brentq\<close> raises: no sign change or a NaN value, and no
  convergence), a failure of the root-finder on a row makes the row's result NaN,
  the per-row solver returns a value for every row and never raises, and so does
  the solve of a whole chunk, with one result per row.
\<close>

theorem solve_iv_never_raises:
  assumes "\<forall>f a b maxiter xtol e.
             brentq f a b maxiter xtol = Inl e \<longrightarrow> e = ValueError \<or> e = RuntimeError"
  shows "(\<forall>e. brentq (price_diff N args) IV_LOWER IV_UPPER 100 (Fin (1 / 10 ^ 8)) = Inl e
            \<longrightarrow> solve_iv N brentq args = Inr NaN)
       \<and> (\<exists>v. solve_iv N brentq args = Inr v)
       \<and> (\<exists>vs. solve_iv_chunk N brentq chunk_args = Inr vs \<and> length vs = length chunk_args)"
proof -
  have ok: "\<exists>v. solve_iv N brentq a = Inr v" for a
    using solve_iv_cases [of N brentq a] assms
    by (auto simp: except_to_nan_def split: sum.splits)
  have fail: "solve_iv N brentq args = Inr NaN"
    if "brentq (price_diff N args) IV_LOWER IV_UPPER 100 (Fin (1 / 10 ^ 8)) = Inl e" for e
    using solve_iv_cases [of N brentq args] assms that
    by (auto simp: except_to_nan_def)
  from solve_rows_all_ok [of chunk_args "solve_iv N brentq" "[]"] ok
  have "\<exists>vs. solve_iv_chunk N brentq chunk_args = Inr vs \<and> length vs = length chunk_args"
    by (simp add: solve_iv_chunk_def)
  with ok fail show ?thesis by blast
qed

theorem solve_iv_never_raises_witness:
  "test_brentq (price_diff test_norm (Fin 1, Fin 1, Fin 1, Fin 0, Fin 0, Fin (3/4), True))
        IV_LOWER IV_UPPER 100 (Fin (1 / 10 ^ 8)) = Inl RuntimeError
   \<and> solve_iv test_norm test_brentq (Fin 1, Fin 1, Fin 1, Fin 0, Fin 0, Fin (3/4), True) = Inr NaN
   \<and> solve_iv_chunk test_norm test_brentq
        [(Fin 1, Fin 1, Fin 1, Fin 0, Fin 0, Fin (3/4), True),
         (Fin 1, Fin 1, Fin 0, Fin 0, Fin 0, Fin (3/4), True)]
       = Inr [NaN, NaN]"
proof -
  have h: "\<forall>f a b maxiter xtol e.
      test_brentq f a b maxiter xtol = Inl e \<longrightarrow> e = ValueError \<or> e = RuntimeError"
    by (auto simp: test_brentq_def split: if_splits)
  have b: "test_brentq (price_diff test_norm (Fin 1, Fin 1, Fin 1, Fin 0, Fin 0, Fin (3/4), True))
        IV_LOWER IV_UPPER 100 (Fin (1 / 10 ^ 8)) = Inl RuntimeError"
    by (simp add: test_brentq_def price_diff_example fl_ops)
  have r2: "solve_iv test_norm test_brentq
      (Fin 1, Fin 1, Fin 0, Fin 0, Fin 0, Fin (3/4), True) = Inr NaN"
    by (simp add: solve_iv_def solve_iv_traced_def fl_ops)
  from solve_iv_never_raises [OF h, of test_norm
      "(Fin 1, Fin 1, Fin 1, Fin 0, Fin 0, Fin (3/4), True)"] b
  have r1: "solve_iv test_norm test_brentq
      (Fin 1, Fin 1, Fin 1, Fin 0, Fin 0, Fin (3/4), True) = Inr NaN"
    by blast
  from b r1 r2 show ?thesis by (simp add: solve_iv_chunk_def)
qed

text \<open>
  The \<^verbatim>\<open>except\<close> clause names two classes only: an exception of any other class
  raised by the root-finder would leave the per-row solver.
\<close>

lemma solve_iv_other_exception_propagates:
  assumes "\<not> (T \<le> 0 \<or> mkt_price \<le> 0 \<or> S \<le> 0 \<or> K \<le> 0)"
    and "\<not> 0 < price_diff N (S, K, T, r, q, mkt_price, is_call) IV_LOWER
              * price_diff N (S, K, T, r, q, mkt_price, is_call) IV_UPPER"
    and "brentq (price_diff N (S, K, T, r, q, mkt_price, is_call))
           IV_LOWER IV_UPPER 100 (Fin (1 / 10 ^ 8)) = Inl e"
    and "e \<noteq> ValueError" "e \<noteq> RuntimeError"
  shows "solve_iv N brentq (S, K, T, r, q, mkt_price, is_call) = Inl e"
  using assms
  by (simp add: solve_iv_def solve_iv_traced_def Let_def price_diff_eq except_to_nan_def)

text \<open>
  C10. For a row that passes the four checks, the solver leaves by the
  no-bracket exit exactly when the product of the price differences at the two
  bounds is strictly positive. When the price difference is exactly zero at a
  bound the root-finder is called, and with a root-finder that returns an end of
  the bracket at which the function is zero (as scipy's \<^verbatim>\<open>brentq\<close> does when the
  value at the other end is a number) the result is that bound: \<open>IV_LOWER\<close> when
  the zero is at the lower bound, \<open>IV_UPPER\<close> when it is at the upper bound only.
\<close>

theorem solve_iv_zero_at_bound:
  assumes "\<not> (T \<le> 0 \<or> mkt_price \<le> 0 \<or> S \<le> 0 \<or> K \<le> 0)"
  shows "(solve_iv_traced N brentq (S, K, T, r, q, mkt_price, is_call)
            = ([PriceEval IV_LOWER, PriceEval IV_UPPER], Inr NaN))
         = (0 < price_diff N (S, K, T, r, q, mkt_price, is_call) IV_LOWER
                * price_diff N (S, K, T, r, q, mkt_price, is_call) IV_UPPER)
       \<and> (price_diff N (S, K, T, r, q, mkt_price, is_call) IV_LOWER = 0
            \<or> price_diff N (S, K, T, r, q, mkt_price, is_call) IV_UPPER = 0
          \<longrightarrow> solve_iv_traced N brentq (S, K, T, r, q, mkt_price, is_call)
               = ([PriceEval IV_LOWER, PriceEval IV_UPPER,
                   RootFind IV_LOWER IV_UPPER 100 (Fin (1 / 10 ^ 8))],
                  except_to_nan (brentq (price_diff N (S, K, T, r, q, mkt_price, is_call))
                                   IV_LOWER IV_UPPER 100 (Fin (1 / 10 ^ 8)))))
       \<and> ((\<forall>f a b maxiter xtol. f a = 0 \<and> f b \<noteq> NaN \<longrightarrow> brentq f a b maxiter xtol = Inr a)
          \<and> price_diff N (S, K, T, r, q, mkt_price, is_call) IV_LOWER = 0
          \<and> price_diff N (S, K, T, r, q, mkt_price, is_call) IV_UPPER \<noteq> NaN
          \<longrightarrow> solve_iv N brentq (S, K, T, r, q, mkt_price, is_call) = Inr IV_LOWER)
       \<and> ((\<forall>f a b maxiter xtol. f a \<noteq> 0 \<and> f a \<noteq> NaN \<and> f b = 0
              \<longrightarrow> brentq f a b maxiter xtol = Inr b)
          \<and> price_diff N (S, K, T, r, q, mkt_price, is_call) IV_LOWER \<noteq> 0
          \<and> price_diff N (S, K, T, r, q, mkt_price, is_call) IV_LOWER \<noteq> NaN
          \<and> price_diff N (S, K, T, r, q, mkt_price, is_call) IV_UPPER = 0
          \<longrightarrow> solve_iv N brentq (S, K, T, r, q, mkt_price, is_call) = Inr IV_UPPER)"
  using assms
  by (auto simp: solve_iv_def solve_iv_traced_def Let_def price_diff_eq except_to_nan_def
        fl_zero_mult_not_pos)

theorem solve_iv_zero_at_bound_witness:
  "\<not> (Fin 1 \<le> (0::fl) \<or> Fin (1/2) \<le> (0::fl) \<or> Fin 1 \<le> (0::fl) \<or> Fin 1 \<le> (0::fl))
   \<and> price_diff test_norm (Fin 1, Fin 1, Fin 1, Fin 0, Fin 0, Fin (1/2), True) IV_LOWER = 0
   \<and> solve_iv test_norm test_brentq (Fin 1, Fin 1, Fin 1, Fin 0, Fin 0, Fin (1/2), True)
       = Inr IV_LOWER
   \<and> price_diff test_norm (Fin 1, Fin 1, Fin 1, Fin 0, Fin 0, Fin 1, True) IV_UPPER = 0
   \<and> solve_iv test_norm test_brentq (Fin 1, Fin 1, Fin 1, Fin 0, Fin 0, Fin 1, True)
       = Inr IV_UPPER"
proof -
  have h1: "\<not> (Fin 1 \<le> (0::fl) \<or> Fin (1/2) \<le> (0::fl) \<or> Fin 1 \<le> (0::fl) \<or> Fin 1 \<le> (0::fl))"
    by (simp add: fl_ops)
  have h2: "\<not> (Fin 1 \<le> (0::fl) \<or> Fin 1 \<le> (0::fl) \<or> Fin 1 \<le> (0::fl) \<or> Fin 1 \<le> (0::fl))"
    by (simp add: fl_ops)
  have lo1: "price_diff test_norm (Fin 1, Fin 1, Fin 1, Fin 0, Fin 0, Fin (1/2), True) IV_LOWER = 0"
    by (simp add: price_diff_example zero_fl_def)
  have hi1: "price_diff test_norm (Fin 1, Fin 1, Fin 1, Fin 0, Fin 0, Fin (1/2), True) IV_UPPER
             = Fin (1/2)"
    by (simp add: price_diff_example)
  have lo2: "price_diff test_norm (Fin 1, Fin 1, Fin 1, Fin 0, Fin 0, Fin 1, True) IV_LOWER
             = Fin (- 1/2)"
    by (simp add: price_diff_example)
  have hi2: "price_diff test_norm (Fin 1, Fin 1, Fin 1, Fin 0, Fin 0, Fin 1, True) IV_UPPER = 0"
    by (simp add: price_diff_example zero_fl_def)
  have b1: "\<forall>f a b maxiter xtol. f a = 0 \<and> f b \<noteq> NaN \<longrightarrow> test_brentq f a b maxiter xtol = Inr a"
    by (simp add: test_brentq_def)
  have b2: "\<forall>f a b maxiter xtol. f a \<noteq> 0 \<and> f a \<noteq> NaN \<and> f b = 0
              \<longrightarrow> test_brentq f a b maxiter xtol = Inr b"
    by (simp add: test_brentq_def)
  from solve_iv_zero_at_bound [OF h1, where N = test_norm and brentq = test_brentq
      and r = "Fin 0" and q = "Fin 0" and is_call = True] b1 lo1 hi1
  have r1: "solve_iv test_norm test_brentq (Fin 1, Fin 1, Fin 1, Fin 0, Fin 0, Fin (1/2), True)
            = Inr IV_LOWER"
    by simp
  from solve_iv_zero_at_bound [OF h2, where N = test_norm and brentq = test_brentq
      and r = "Fin 0" and q = "Fin 0" and is_call = True] b2 lo2 hi2
  have r2: "solve_iv test_norm test_brentq (Fin 1, Fin 1, Fin 1, Fin 0, Fin 0, Fin 1, True)
            = Inr IV_UPPER"
    by (simp add: zero_fl_def)
  from h1 lo1 r1 hi2 r2 show ?thesis by blast
qed

section \<open>The vectorized Newton-Raphson solver\<close>

lemma iv_loop_numeral:
  "iv_loop N market_price S K T r is_call tol (numeral k) st =
    (if \<not> np_any (st_active st) then Inr st
     else if length S \<noteq> length (st_active st) \<or> length K \<noteq> length (st_active st)
             \<or> length T \<noteq> length (st_active st) \<or> length is_call \<noteq> length (st_active st)
     then Inl IndexError
     else iv_loop N market_price S K T r is_call tol (pred_numeral k)
            (iv_iteration N market_price S K T r is_call tol st))"
  by (simp add: numeral_eq_Suc)

lemma zip_eq_map_nth:
  "length a = length m \<Longrightarrow> zip a m = map (\<lambda>i. (a ! i, m ! i)) [0..<length m]"
  by (rule nth_equalityI) simp_all

lemma np_mask_eq_map:
  assumes "length a = length m"
  shows "np_mask a m = map (\<lambda>i. a ! i) (np_where m)"
  by (simp add: np_mask_def np_where_def zip_eq_map_nth [OF assms] filter_map o_def)

lemma map_zip_same:
  "map (\<lambda>(u, v). h u v) (zip (map f xs) (map g xs)) = map (\<lambda>i. h (f i) (g i)) xs"
  by (induction xs) simp_all

lemma v_ops_map:
  "v_add (map f xs) (map g xs) = map (\<lambda>i. f i + g i) xs"
  "v_sub (map f xs) (map g xs) = map (\<lambda>i. f i - g i) xs"
  "v_mul (map f xs) (map g xs) = map (\<lambda>i. f i * g i) xs"
  "v_div (map f xs) (map g xs) = map (\<lambda>i. f i / g i) xs"
  "v_and (map p xs) (map q xs) = map (\<lambda>i. p i \<and> q i) xs"
  "v_or (map p xs) (map q xs) = map (\<lambda>i. p i \<or> q i) xs"
  "v_not (map p xs) = map (\<lambda>i. \<not> p i) xs"
  by (simp_all add: v_add_def v_sub_def v_mul_def v_div_def v_and_def v_or_def v_not_def map_zip_same)

lemma np_select_map:
  "np_select (map c xs) (map f xs) (map g xs) = map (\<lambda>i. if c i then f i else g i) xs"
  by (induction xs) (simp_all add: np_select_def)

lemma np_mask_map_map:
  "np_mask (map f xs) (map p xs) = map f (filter p xs)"
  by (induction xs) (simp_all add: np_mask_def)

lemma np_mask_map_id:
  "np_mask xs (map p xs) = filter p xs"
  using np_mask_map_map [of "\<lambda>x. x" xs p] by simp

lemma np_put_map_length [simp]: "length (np_put a idx vals) = length a"
proof -
  have "length (fold (\<lambda>(i, v) b. b[i := v]) ps a) = length a" for ps :: "(nat \<times> 'a) list"
    by (induction ps arbitrary: a) auto
  then show ?thesis by (simp add: np_put_def)
qed

lemma np_fill_length [simp]: "length (np_fill a idx c) = length a"
  by (induction idx arbitrary: a) (simp_all add: np_fill_def)

lemma np_put_map_nth:
  "j < length a \<Longrightarrow> np_put a idx (map g idx) ! j = (if j \<in> set idx then g j else a ! j)"
proof (induction idx arbitrary: a)
  case Nil
  then show ?case by (simp add: np_put_def)
next
  case (Cons i idx)
  have "np_put a (i # idx) (map g (i # idx)) = np_put (a[i := g i]) idx (map g idx)"
    by (simp add: np_put_def)
  with Cons.IH [of "a[i := g i]"] Cons.prems show ?case
    by (auto simp: nth_list_update)
qed

lemma np_fill_nth:
  "j < length a \<Longrightarrow> np_fill a idx c ! j = (if j \<in> set idx then c else a ! j)"
proof (induction idx arbitrary: a)
  case Nil
  then show ?case by (simp add: np_fill_def)
next
  case (Cons i idx)
  have "np_fill a (i # idx) c = np_fill (a[i := c]) idx c"
    by (simp add: np_fill_def)
  with Cons.IH [of "a[i := c]"] Cons.prems show ?case
    by (auto simp: nth_list_update)
qed

lemma set_np_where: "set (np_where m) = {i. i < length m \<and> m ! i}"
  by (auto simp: np_where_def)

lemma np_any_iff: "np_any m = (\<exists>i<length m. m ! i)"
proof -
  have "np_any m = (True \<in> set m)" by (auto simp: np_any_def list_ex_iff)
  also have "\<dots> = (\<exists>i<length m. m ! i = True)" by (rule in_set_conv_nth)
  finally show ?thesis by simp
qed

lemma iv_iteration_normal_form:
  fixes N :: scipy_norm and r tol :: fl and st :: iv_state
    and market_price S K T :: "fl list" and is_call :: "bool list"
  assumes len: "length (st_sigma st) = n" "length (st_result st) = n" "length (st_active st) = n"
      "length market_price = n" "length S = n" "length K = n" "length T = n" "length is_call = n"
  defines "dif \<equiv> \<lambda>i. row_diff N r (st_sigma st ! i) (market_price ! i) (S ! i) (K ! i) (T ! i) (is_call ! i)"
    and "veg \<equiv> \<lambda>i. row_vega N r (st_sigma st ! i) (S ! i) (K ! i) (T ! i)"
    and "aidx \<equiv> np_where (st_active st)"
  defines "C \<equiv> filter (\<lambda>i. \<bar>dif i\<bar> < tol) aidx"
    and "F \<equiv> filter (\<lambda>i. veg i < Fin (1 / 10 ^ 12) \<and> \<not> \<bar>dif i\<bar> < tol) aidx"
    and "U \<equiv> filter (\<lambda>i. \<not> \<bar>dif i\<bar> < tol \<and> \<not> veg i < Fin (1 / 10 ^ 12)) aidx"
  defines "sig1 \<equiv> np_put (st_sigma st) U (map (\<lambda>i. st_sigma st ! i - dif i / veg i) U)"
  defines "B \<equiv> filter (\<lambda>i. sig1 ! i \<le> 0 \<or> Fin 10 < sig1 ! i) U"
  shows "iv_iteration N market_price S K T r is_call tol st =
    \<lparr>st_sigma = np_fill sig1 B NaN,
     st_result = np_put (st_result st) C (map (\<lambda>i. st_sigma st ! i) C),
     st_active = np_fill (np_fill (np_fill (st_active st) C False) F False) B False\<rparr>"
proof -
  note m = np_mask_eq_map [of "st_sigma st" "st_active st"] np_mask_eq_map [of market_price "st_active st"]
    np_mask_eq_map [of S "st_active st"] np_mask_eq_map [of K "st_active st"]
    np_mask_eq_map [of T "st_active st"] np_mask_eq_map [of is_call "st_active st"]
  show ?thesis
    unfolding iv_iteration_def Let_def B_def sig1_def U_def F_def C_def aidx_def dif_def veg_def
      row_diff_def row_vega_def row_d1_def
    using len
    by (simp add: m v_ops_map np_select_map np_mask_map_map np_mask_map_id np_take_def o_def
          if_distrib [of "\<lambda>x. x - _"] cong: if_cong)
qed

lemma iv_iteration_row:
  fixes N :: scipy_norm and r tol :: fl and st :: iv_state
    and market_price S K T :: "fl list" and is_call :: "bool list"
  assumes len: "length (st_sigma st) = n" "length (st_result st) = n" "length (st_active st) = n"
      "length market_price = n" "length S = n" "length K = n" "length T = n" "length is_call = n"
    and j: "j < n"
  shows "(st_sigma (iv_iteration N market_price S K T r is_call tol st) ! j,
          st_result (iv_iteration N market_price S K T r is_call tol st) ! j,
          st_active (iv_iteration N market_price S K T r is_call tol st) ! j)
         = row_step tol
             (row_diff N r (st_sigma st ! j) (market_price ! j) (S ! j) (K ! j) (T ! j) (is_call ! j))
             (row_vega N r (st_sigma st ! j) (S ! j) (K ! j) (T ! j))
             (st_sigma st ! j, st_result st ! j, st_active st ! j)"
  using len j
  by (simp add: iv_iteration_normal_form [OF len] np_fill_nth np_put_map_nth set_np_where
        row_step_def)

lemma iv_iteration_length:
  fixes N :: scipy_norm and r tol :: fl and st :: iv_state
    and market_price S K T :: "fl list" and is_call :: "bool list"
  assumes len: "length (st_sigma st) = n" "length (st_result st) = n" "length (st_active st) = n"
      "length market_price = n" "length S = n" "length K = n" "length T = n" "length is_call = n"
  shows "length (st_sigma (iv_iteration N market_price S K T r is_call tol st)) = n
       \<and> length (st_result (iv_iteration N market_price S K T r is_call tol st)) = n
       \<and> length (st_active (iv_iteration N market_price S K T r is_call tol st)) = n"
  using len by (simp add: iv_iteration_normal_form [OF len])

lemma iv_shape_init: "iv_shape n (iv_init n)"
  by (simp add: iv_shape_def iv_init_def)

lemma iv_shape_iteration:
  assumes "iv_shape n st" "length market_price = n" "length S = n" "length K = n" "length T = n"
    "length is_call = n"
  shows "iv_shape n (iv_iteration N market_price S K T r is_call tol st)"
  using assms iv_iteration_length [of st n market_price S K T is_call N r tol]
  by (simp add: iv_shape_def)

lemma iv_shape_after:
  assumes "length S = length market_price" "length K = length market_price"
    "length T = length market_price" "length is_call = length market_price"
  shows "iv_shape (length market_price) (iv_after N market_price S K T r is_call tol k)"
  by (induction k) (simp_all add: iv_after_def iv_shape_init iv_shape_iteration assms)

lemma iv_after_Suc:
  "iv_after N market_price S K T r is_call tol (Suc k) =
    iv_iteration N market_price S K T r is_call tol (iv_after N market_price S K T r is_call tol k)"
  by (simp add: iv_after_def)

lemma iv_iteration_idle:
  assumes sh: "iv_shape n st" and len: "length market_price = n" "length S = n" "length K = n"
    "length T = n" "length is_call = n"
    and idle: "\<not> np_any (st_active st)"
  shows "iv_iteration N market_price S K T r is_call tol st = st"
proof -
  let ?st' = "iv_iteration N market_price S K T r is_call tol st"
  have sh': "iv_shape n ?st'" by (rule iv_shape_iteration [OF sh len])
  have row: "(st_sigma ?st' ! j, st_result ?st' ! j, st_active ?st' ! j)
             = (st_sigma st ! j, st_result st ! j, st_active st ! j)" if "j < n" for j
  proof -
    have "\<not> st_active st ! j" using idle that sh by (auto simp: np_any_iff iv_shape_def)
    then show ?thesis
      using iv_iteration_row [of st n market_price S K T is_call j N r tol] sh len that
      by (simp add: iv_shape_def row_step_def)
  qed
  have "st_sigma ?st' = st_sigma st" "st_result ?st' = st_result st" "st_active ?st' = st_active st"
    using sh sh' row by (auto simp: iv_shape_def intro!: nth_equalityI)
  then show ?thesis by simp
qed

lemma iv_loop_funpow:
  assumes len: "length market_price = n" "length S = n" "length K = n" "length T = n"
    "length is_call = n"
  shows "iv_shape n st \<Longrightarrow>
    iv_loop N market_price S K T r is_call tol k st
      = Inr (((iv_iteration N market_price S K T r is_call tol) ^^ k) st)"
proof (induction k arbitrary: st)
  case 0
  then show ?case by simp
next
  case (Suc k)
  show ?case
  proof (cases "np_any (st_active st)")
    case True
    have "iv_shape n (iv_iteration N market_price S K T r is_call tol st)"
      by (rule iv_shape_iteration [OF Suc.prems len])
    from Suc.IH [OF this] True Suc.prems len show ?thesis
      by (simp add: iv_shape_def funpow_swap1)
  next
    case False
    have fixp: "iv_iteration N market_price S K T r is_call tol st = st"
      by (rule iv_iteration_idle [OF Suc.prems len False])
    have "((iv_iteration N market_price S K T r is_call tol) ^^ m) st = st" for m
      by (induction m) (simp_all add: fixp)
    with False fixp show ?thesis by simp
  qed
qed

lemma vectorized_iv_state_after:
  assumes "length S = length market_price" "length K = length market_price"
    "length T = length market_price" "length is_call = length market_price"
  shows "vectorized_iv_state N market_price S K T r is_call tol max_iter
         = Inr (iv_after N market_price S K T r is_call tol max_iter)"
  using iv_loop_funpow [OF refl assms iv_shape_init]
  by (simp add: vectorized_iv_state_def iv_after_def)

lemma row_step_simps:
  "row_step tol d v (sig, res, False) = (sig, res, False)"
  "row_step tol d v (sig, res, True) =
    (if \<bar>d\<bar> < tol then (sig, sig, False)
     else if v < Fin (1 / 10 ^ 12) then (sig, res, False)
     else if sig - d / v \<le> 0 \<or> Fin 10 < sig - d / v then (NaN, res, False)
     else (sig - d / v, res, True))"
  by (simp_all add: row_step_def)

lemma iv_after_row:
  assumes len: "length S = length market_price" "length K = length market_price"
    "length T = length market_price" "length is_call = length market_price"
    and i: "i < length market_price"
  shows "(st_sigma (iv_after N market_price S K T r is_call tol (Suc k)) ! i,
          st_result (iv_after N market_price S K T r is_call tol (Suc k)) ! i,
          st_active (iv_after N market_price S K T r is_call tol (Suc k)) ! i)
         = row_step tol
             (row_diff N r (st_sigma (iv_after N market_price S K T r is_call tol k) ! i)
                (market_price ! i) (S ! i) (K ! i) (T ! i) (is_call ! i))
             (row_vega N r (st_sigma (iv_after N market_price S K T r is_call tol k) ! i)
                (S ! i) (K ! i) (T ! i))
             (st_sigma (iv_after N market_price S K T r is_call tol k) ! i,
              st_result (iv_after N market_price S K T r is_call tol k) ! i,
              st_active (iv_after N market_price S K T r is_call tol k) ! i)"
proof -
  let ?st = "iv_after N market_price S K T r is_call tol k"
  have sh: "iv_shape (length market_price) ?st" by (rule iv_shape_after [OF len])
  show ?thesis
    unfolding iv_after_Suc
    by (rule iv_iteration_row) (use sh len i in \<open>simp_all add: iv_shape_def\<close>)
qed

lemma fl_in_range:
  "\<not> (s \<le> 0 \<or> Fin 10 < s) \<Longrightarrow> s = NaN \<or> (\<exists>x. s = Fin x \<and> 0 < x \<and> x \<le> 10)"
  by (cases s) (auto simp: fl_ops)

lemma iv_after_active_invariant:
  assumes len: "length S = length market_price" "length K = length market_price"
    "length T = length market_price" "length is_call = length market_price"
    and i: "i < length market_price"
  shows "st_active (iv_after N market_price S K T r is_call tol k) ! i \<Longrightarrow>
    st_result (iv_after N market_price S K T r is_call tol k) ! i = NaN
    \<and> (st_sigma (iv_after N market_price S K T r is_call tol k) ! i = NaN
       \<or> (\<exists>x. st_sigma (iv_after N market_price S K T r is_call tol k) ! i = Fin x
              \<and> 0 < x \<and> x \<le> 10))"
proof (induction k)
  case 0
  have "\<exists>x::real. Fin 0.3 = Fin x \<and> 0 < x \<and> x \<le> 10"
    by (intro exI [of _ "0.3"]) simp
  with i show ?case by (simp only: iv_after_def iv_init_def funpow_0 iv_state.simps nth_replicate simp_thms)
next
  case (Suc k)
  let ?st = "iv_after N market_price S K T r is_call tol k"
  let ?d = "row_diff N r (st_sigma ?st ! i) (market_price ! i) (S ! i) (K ! i) (T ! i) (is_call ! i)"
  let ?v = "row_vega N r (st_sigma ?st ! i) (S ! i) (K ! i) (T ! i)"
  note row = iv_after_row [OF len i, of N r tol k]
  have act: "st_active ?st ! i"
    using row Suc.prems by (cases "st_active ?st ! i") (simp_all add: row_step_simps)
  from row Suc.prems act
  have new: "\<not> (st_sigma ?st ! i - ?d / ?v \<le> 0 \<or> Fin 10 < st_sigma ?st ! i - ?d / ?v)"
    "st_sigma (iv_after N market_price S K T r is_call tol (Suc k)) ! i = st_sigma ?st ! i - ?d / ?v"
    "st_result (iv_after N market_price S K T r is_call tol (Suc k)) ! i = st_result ?st ! i"
    by (auto simp: row_step_simps split: if_splits)
  from fl_in_range [OF new(1)] new(2,3) Suc.IH [OF act] show ?case by simp
qed

lemma iv_after_inactive_stays:
  assumes len: "length S = length market_price" "length K = length market_price"
    "length T = length market_price" "length is_call = length market_price"
    and i: "i < length market_price"
    and off: "\<not> st_active (iv_after N market_price S K T r is_call tol k) ! i"
  shows "\<not> st_active (iv_after N market_price S K T r is_call tol (k + m)) ! i
    \<and> st_result (iv_after N market_price S K T r is_call tol (k + m)) ! i
        = st_result (iv_after N market_price S K T r is_call tol k) ! i
    \<and> st_sigma (iv_after N market_price S K T r is_call tol (k + m)) ! i
        = st_sigma (iv_after N market_price S K T r is_call tol k) ! i"
proof (induction m)
  case 0
  with off show ?case by simp
next
  case (Suc m)
  from iv_after_row [OF len i, of N r tol "k + m"] Suc.IH show ?case
    by (simp add: row_step_simps)
qed

text \<open>
  C2. In every iteration the loop performs, a row that is active (its result is
  still NaN) is treated by the first rule that applies, in this order. Converged:
  when the absolute price difference is below the tolerance, the row's current
  volatility is written to the result and the row is deactivated. Degenerate
  vega: else, when the vega is below \<open>1e-12\<close>, the row is deactivated and its
  result stays NaN. Step: otherwise the volatility becomes \<open>sigma - diff / vega\<close>.
  Divergent: after the step, when the new volatility is \<open>\<le> 0\<close> or \<open>> 10\<close>, the
  row is deactivated (its volatility set to NaN) and its result stays NaN;
  otherwise the row stays active with the new volatility. A converged row is
  never handled as a degenerate-vega failure, whatever its vega.
\<close>

theorem newton_iteration_order:
  assumes len: "length S = length market_price" "length K = length market_price"
    "length T = length market_price" "length is_call = length market_price"
    and i: "i < length market_price"
    and act: "st_active (iv_after N market_price S K T r is_call tol k) ! i"
  shows "let st = iv_after N market_price S K T r is_call tol k;
             st' = iv_after N market_price S K T r is_call tol (Suc k);
             sig = st_sigma st ! i;
             diff = row_diff N r sig (market_price ! i) (S ! i) (K ! i) (T ! i) (is_call ! i);
             vega = row_vega N r sig (S ! i) (K ! i) (T ! i)
         in st' = iv_iteration N market_price S K T r is_call tol st
          \<and> st_result st ! i = NaN
          \<and> (if \<bar>diff\<bar> < tol
              then st_result st' ! i = sig \<and> \<not> st_active st' ! i \<and> st_sigma st' ! i = sig
              else if vega < Fin (1 / 10 ^ 12)
              then st_result st' ! i = NaN \<and> \<not> st_active st' ! i \<and> st_sigma st' ! i = sig
              else if sig - diff / vega \<le> 0 \<or> Fin 10 < sig - diff / vega
              then st_result st' ! i = NaN \<and> \<not> st_active st' ! i \<and> st_sigma st' ! i = NaN
              else st_result st' ! i = NaN \<and> st_active st' ! i
                   \<and> st_sigma st' ! i = sig - diff / vega)"
proof -
  note row = iv_after_row [OF len i, of N r tol k]
  note inv = iv_after_active_invariant [OF len i act]
  show ?thesis
    using row act inv unfolding Let_def
    by (simp add: row_step_simps iv_after_Suc split: if_splits)
qed

text \<open>
  The scalar solver of VI.py is not the batch solver. Whatever its arguments, it
  either raises or returns a volatility at which the price difference, the one of
  the batch solver for a single row, is below the tolerance.
\<close>

lemma implied_volatility_loop_outcome:
  "implied_volatility_loop N market_price S K T r is_call tol n sigma = Inl ValueError
   \<or> implied_volatility_loop N market_price S K T r is_call tol n sigma = Inl ZeroDivisionError
   \<or> (\<exists>x. implied_volatility_loop N market_price S K T r is_call tol n sigma = Inr x
          \<and> \<bar>row_diff N r x market_price S K T is_call\<bar> < tol)"
proof (induction n arbitrary: sigma)
  case 0
  show ?case by simp
next
  case (Suc n)
  let ?d = "row_diff N r sigma market_price S K T is_call"
  let ?v = "S * pdf N (row_d1 r sigma S K T) * np_sqrt T"
  have step: "implied_volatility_loop N market_price S K T r is_call tol (Suc n) sigma
      = (if K = Fin 0 then Inl ZeroDivisionError
         else if \<bar>?d\<bar> < tol then Inr sigma
         else implied_volatility_loop N market_price S K T r is_call tol n (sigma - ?d / ?v))"
    by (simp add: Let_def row_diff_def row_d1_def)
  from Suc [of "sigma - ?d / ?v"] show ?case
    unfolding step by auto
qed

text \<open>
  C5 (amended). For every batch of equal-length arrays and every iteration budget,
  the vectorized Newton solver raises nothing: it returns the result array, of the
  length of the batch, that the loop has built after the budget, and every row that
  is still active then has the result NaN. The scalar Newton solver of VI.py has no
  sentinel: it returns a volatility only when the price difference at it is below
  the tolerance, and otherwise it raises ValueError or ZeroDivisionError.
\<close>

theorem newton_unconverged_rows_nan:
  assumes len: "length S = length market_price" "length K = length market_price"
    "length T = length market_price" "length is_call = length market_price"
  shows "vectorized_iv_state N market_price S K T r is_call tol max_iter
           = Inr (iv_after N market_price S K T r is_call tol max_iter)
       \<and> vectorized_iv N market_price S K T r is_call tol max_iter
           = Inr (st_result (iv_after N market_price S K T r is_call tol max_iter))
       \<and> length (st_result (iv_after N market_price S K T r is_call tol max_iter))
           = length market_price
       \<and> (\<forall>i<length market_price.
             st_active (iv_after N market_price S K T r is_call tol max_iter) ! i
             \<longrightarrow> st_result (iv_after N market_price S K T r is_call tol max_iter) ! i = NaN)
       \<and> (implied_volatility N price spot strike expiry r call tol max_iter = Inl ValueError
          \<or> implied_volatility N price spot strike expiry r call tol max_iter = Inl ZeroDivisionError
          \<or> (\<exists>x. implied_volatility N price spot strike expiry r call tol max_iter = Inr x
                 \<and> \<bar>row_diff N r x price spot strike expiry call\<bar> < tol))"
proof -
  have e: "implied_volatility N price spot strike expiry r call tol max_iter = Inl ValueError
          \<or> implied_volatility N price spot strike expiry r call tol max_iter = Inl ZeroDivisionError
          \<or> (\<exists>x. implied_volatility N price spot strike expiry r call tol max_iter = Inr x
                 \<and> \<bar>row_diff N r x price spot strike expiry call\<bar> < tol)"
    unfolding implied_volatility_def by (rule implied_volatility_loop_outcome)
  have a: "vectorized_iv_state N market_price S K T r is_call tol max_iter
           = Inr (iv_after N market_price S K T r is_call tol max_iter)"
    by (rule vectorized_iv_state_after [OF len])
  then have b: "vectorized_iv N market_price S K T r is_call tol max_iter
           = Inr (st_result (iv_after N market_price S K T r is_call tol max_iter))"
    by (simp add: vectorized_iv_def)
  have c: "length (st_result (iv_after N market_price S K T r is_call tol max_iter))
           = length market_price"
    using iv_shape_after [OF len, of N r tol max_iter] by (simp add: iv_shape_def)
  have d: "st_result (iv_after N market_price S K T r is_call tol max_iter) ! i = NaN"
    if "i < length market_price"
      "st_active (iv_after N market_price S K T r is_call tol max_iter) ! i" for i
    using iv_after_active_invariant [OF len that] by simp
  from a b c d e show ?thesis by blast
qed

text \<open>
  C9. Once a row is deactivated, no later iteration reactivates it or changes
  its result: a result left at NaN by a give-up stays NaN, and a converged result
  keeps its value. A result entry changes only in an iteration in which its row
  is active and converges; it goes from NaN to the row's volatility at that
  moment, a number in \<open>(0, 10]\<close>, and the row is deactivated, so each entry
  changes at most once. Every entry starts as NaN, and the array returned is
  the one after the last iteration.
\<close>

theorem newton_give_up_is_final:
  assumes len: "length S = length market_price" "length K = length market_price"
    "length T = length market_price" "length is_call = length market_price"
    and i: "i < length market_price"
  shows "(\<forall>k k'. k \<le> k' \<and> \<not> st_active (iv_after N market_price S K T r is_call tol k) ! i
            \<longrightarrow> \<not> st_active (iv_after N market_price S K T r is_call tol k') ! i
                \<and> st_result (iv_after N market_price S K T r is_call tol k') ! i
                    = st_result (iv_after N market_price S K T r is_call tol k) ! i)
       \<and> (\<forall>k. st_result (iv_after N market_price S K T r is_call tol (Suc k)) ! i
               \<noteq> st_result (iv_after N market_price S K T r is_call tol k) ! i
            \<longrightarrow> st_active (iv_after N market_price S K T r is_call tol k) ! i
                \<and> st_result (iv_after N market_price S K T r is_call tol k) ! i = NaN
                \<and> \<bar>row_diff N r (st_sigma (iv_after N market_price S K T r is_call tol k) ! i)
                      (market_price ! i) (S ! i) (K ! i) (T ! i) (is_call ! i)\<bar> < tol
                \<and> st_result (iv_after N market_price S K T r is_call tol (Suc k)) ! i
                    = st_sigma (iv_after N market_price S K T r is_call tol k) ! i
                \<and> (\<exists>x. st_result (iv_after N market_price S K T r is_call tol (Suc k)) ! i = Fin x
                       \<and> 0 < x \<and> x \<le> 10)
                \<and> \<not> st_active (iv_after N market_price S K T r is_call tol (Suc k)) ! i)
       \<and> st_result (iv_after N market_price S K T r is_call tol 0) ! i = NaN
       \<and> vectorized_iv N market_price S K T r is_call tol max_iter
           = Inr (st_result (iv_after N market_price S K T r is_call tol max_iter))"
proof -
  have a: "\<not> st_active (iv_after N market_price S K T r is_call tol k') ! i
                \<and> st_result (iv_after N market_price S K T r is_call tol k') ! i
                    = st_result (iv_after N market_price S K T r is_call tol k) ! i"
    if "k \<le> k'" "\<not> st_active (iv_after N market_price S K T r is_call tol k) ! i" for k k'
  proof -
    from that(1) obtain m where "k' = k + m" by (auto simp: le_iff_add)
    with iv_after_inactive_stays [OF len i that(2), of m] show ?thesis by simp
  qed
  have b: "st_active (iv_after N market_price S K T r is_call tol k) ! i
                \<and> st_result (iv_after N market_price S K T r is_call tol k) ! i = NaN
                \<and> \<bar>row_diff N r (st_sigma (iv_after N market_price S K T r is_call tol k) ! i)
                      (market_price ! i) (S ! i) (K ! i) (T ! i) (is_call ! i)\<bar> < tol
                \<and> st_result (iv_after N market_price S K T r is_call tol (Suc k)) ! i
                    = st_sigma (iv_after N market_price S K T r is_call tol k) ! i
                \<and> (\<exists>x. st_result (iv_after N market_price S K T r is_call tol (Suc k)) ! i = Fin x
                       \<and> 0 < x \<and> x \<le> 10)
                \<and> \<not> st_active (iv_after N market_price S K T r is_call tol (Suc k)) ! i"
    if ch: "st_result (iv_after N market_price S K T r is_call tol (Suc k)) ! i
               \<noteq> st_result (iv_after N market_price S K T r is_call tol k) ! i" for k
  proof -
    note row = iv_after_row [OF len i, of N r tol k]
    have act: "st_active (iv_after N market_price S K T r is_call tol k) ! i"
      using row ch
      by (cases "st_active (iv_after N market_price S K T r is_call tol k) ! i")
         (simp_all add: row_step_simps)
    note inv = iv_after_active_invariant [OF len i act]
    from row ch act inv show ?thesis
      by (auto simp: row_step_simps split: if_splits)
  qed
  have c: "st_result (iv_after N market_price S K T r is_call tol 0) ! i = NaN"
    using i by (simp add: iv_after_def iv_init_def)
  have d: "vectorized_iv N market_price S K T r is_call tol max_iter
           = Inr (st_result (iv_after N market_price S K T r is_call tol max_iter))"
    using vectorized_iv_state_after [OF len] by (simp add: vectorized_iv_def)
  from a b c d show ?thesis by blast
qed

lemma row_eval_example:
  "row_diff test_norm (Fin 0) (Fin 0.3) (Fin m) (Fin 1) (Fin 1) (Fin 1) True = Fin (1 / 2 - m)"
  "row_vega test_norm (Fin 0) (Fin 0.3) (Fin 1) (Fin 1) (Fin 1) = Fin 1"
  "row_diff test_norm (Fin 0) (Fin 0.3) (Fin 1) (Fin (1 / 10000000000000))
     (Fin (1 / 10000000000000)) (Fin 1) True = Fin (1 / 20000000000000 - 1)"
  "row_vega test_norm (Fin 0) (Fin 0.3) (Fin (1 / 10000000000000)) (Fin (1 / 10000000000000))
     (Fin 1) = Fin (1 / 10000000000000)"
  by (simp_all add: row_diff_def row_vega_def row_d1_def Let_def fl_ops py_pow2_def)

lemma iv_after_0:
  "i < length market_price \<Longrightarrow>
     st_sigma (iv_after N market_price S K T r is_call tol 0) ! i = Fin 0.3
   \<and> st_result (iv_after N market_price S K T r is_call tol 0) ! i = NaN
   \<and> st_active (iv_after N market_price S K T r is_call tol 0) ! i"
  by (simp add: iv_after_def iv_init_def)

lemma ex_lengths:
  "length ex_spot = length ex_price" "length ex_expiry = length ex_price"
  "length ex_call = length ex_price" "length ex_price = 4"
  by (simp_all add: ex_price_def ex_spot_def ex_expiry_def ex_call_def)

lemma newton_example_rows:
  "(st_sigma (iv_after test_norm ex_price ex_spot ex_spot ex_expiry (Fin 0) ex_call (Fin (1 / 10 ^ 6)) (Suc 0)) ! 0,
    st_result (iv_after test_norm ex_price ex_spot ex_spot ex_expiry (Fin 0) ex_call (Fin (1 / 10 ^ 6)) (Suc 0)) ! 0,
    st_active (iv_after test_norm ex_price ex_spot ex_spot ex_expiry (Fin 0) ex_call (Fin (1 / 10 ^ 6)) (Suc 0)) ! 0)
   = (Fin 0.3, Fin 0.3, False)"
  "(st_sigma (iv_after test_norm ex_price ex_spot ex_spot ex_expiry (Fin 0) ex_call (Fin (1 / 10 ^ 6)) (Suc 0)) ! 1,
    st_result (iv_after test_norm ex_price ex_spot ex_spot ex_expiry (Fin 0) ex_call (Fin (1 / 10 ^ 6)) (Suc 0)) ! 1,
    st_active (iv_after test_norm ex_price ex_spot ex_spot ex_expiry (Fin 0) ex_call (Fin (1 / 10 ^ 6)) (Suc 0)) ! 1)
   = (Fin 0.8, NaN, True)"
  "(st_sigma (iv_after test_norm ex_price ex_spot ex_spot ex_expiry (Fin 0) ex_call (Fin (1 / 10 ^ 6)) (Suc 0)) ! 2,
    st_result (iv_after test_norm ex_price ex_spot ex_spot ex_expiry (Fin 0) ex_call (Fin (1 / 10 ^ 6)) (Suc 0)) ! 2,
    st_active (iv_after test_norm ex_price ex_spot ex_spot ex_expiry (Fin 0) ex_call (Fin (1 / 10 ^ 6)) (Suc 0)) ! 2)
   = (NaN, NaN, False)"
  "(st_sigma (iv_after test_norm ex_price ex_spot ex_spot ex_expiry (Fin 0) ex_call (Fin (1 / 10 ^ 6)) (Suc 0)) ! 3,
    st_result (iv_after test_norm ex_price ex_spot ex_spot ex_expiry (Fin 0) ex_call (Fin (1 / 10 ^ 6)) (Suc 0)) ! 3,
    st_active (iv_after test_norm ex_price ex_spot ex_spot ex_expiry (Fin 0) ex_call (Fin (1 / 10 ^ 6)) (Suc 0)) ! 3)
   = (Fin 0.3, NaN, False)"
proof -
  have i: "0 < length ex_price" "1 < length ex_price" "2 < length ex_price" "3 < length ex_price"
    by (simp_all add: ex_lengths)
  note r = iv_after_row [OF ex_lengths(1) ex_lengths(1) ex_lengths(2) ex_lengths(3),
      of _ test_norm "Fin 0" "Fin (1 / 10 ^ 6)" 0]
  note z = iv_after_0 [of _ ex_price test_norm ex_spot ex_spot ex_expiry "Fin 0" ex_call "Fin (1 / 10 ^ 6)"]
  show "(st_sigma (iv_after test_norm ex_price ex_spot ex_spot ex_expiry (Fin 0) ex_call (Fin (1 / 10 ^ 6)) (Suc 0)) ! 0,
    st_result (iv_after test_norm ex_price ex_spot ex_spot ex_expiry (Fin 0) ex_call (Fin (1 / 10 ^ 6)) (Suc 0)) ! 0,
    st_active (iv_after test_norm ex_price ex_spot ex_spot ex_expiry (Fin 0) ex_call (Fin (1 / 10 ^ 6)) (Suc 0)) ! 0)
   = (Fin 0.3, Fin 0.3, False)"
    unfolding r [OF i(1)] using z [OF i(1)]
    by (simp add: row_step_simps)
       (simp add: ex_price_def ex_spot_def ex_expiry_def ex_call_def row_eval_example fl_ops)
  show "(st_sigma (iv_after test_norm ex_price ex_spot ex_spot ex_expiry (Fin 0) ex_call (Fin (1 / 10 ^ 6)) (Suc 0)) ! 1,
    st_result (iv_after test_norm ex_price ex_spot ex_spot ex_expiry (Fin 0) ex_call (Fin (1 / 10 ^ 6)) (Suc 0)) ! 1,
    st_active (iv_after test_norm ex_price ex_spot ex_spot ex_expiry (Fin 0) ex_call (Fin (1 / 10 ^ 6)) (Suc 0)) ! 1)
   = (Fin 0.8, NaN, True)"
    unfolding r [OF i(2)] using z [OF i(2)]
    by (simp add: row_step_simps)
       (simp add: ex_price_def ex_spot_def ex_expiry_def ex_call_def row_eval_example fl_ops)
  show "(st_sigma (iv_after test_norm ex_price ex_spot ex_spot ex_expiry (Fin 0) ex_call (Fin (1 / 10 ^ 6)) (Suc 0)) ! 2,
    st_result (iv_after test_norm ex_price ex_spot ex_spot ex_expiry (Fin 0) ex_call (Fin (1 / 10 ^ 6)) (Suc 0)) ! 2,
    st_active (iv_after test_norm ex_price ex_spot ex_spot ex_expiry (Fin 0) ex_call (Fin (1 / 10 ^ 6)) (Suc 0)) ! 2)
   = (NaN, NaN, False)"
    unfolding r [OF i(3)] using z [OF i(3)]
    by (simp add: row_step_simps)
       (simp add: ex_price_def ex_spot_def ex_expiry_def ex_call_def row_eval_example fl_ops)
  show "(st_sigma (iv_after test_norm ex_price ex_spot ex_spot ex_expiry (Fin 0) ex_call (Fin (1 / 10 ^ 6)) (Suc 0)) ! 3,
    st_result (iv_after test_norm ex_price ex_spot ex_spot ex_expiry (Fin 0) ex_call (Fin (1 / 10 ^ 6)) (Suc 0)) ! 3,
    st_active (iv_after test_norm ex_price ex_spot ex_spot ex_expiry (Fin 0) ex_call (Fin (1 / 10 ^ 6)) (Suc 0)) ! 3)
   = (Fin 0.3, NaN, False)"
    unfolding r [OF i(4)] using z [OF i(4)]
    by (simp add: row_step_simps)
       (simp add: ex_price_def ex_spot_def ex_expiry_def ex_call_def row_eval_example fl_ops)
qed

theorem newton_iteration_order_witness:
  "st_active (iv_after test_norm ex_price ex_spot ex_spot ex_expiry (Fin 0) ex_call (Fin (1 / 10 ^ 6)) 0) ! 1
   \<and> st_result (iv_after test_norm ex_price ex_spot ex_spot ex_expiry (Fin 0) ex_call (Fin (1 / 10 ^ 6)) (Suc 0)) ! 0 = Fin 0.3
   \<and> \<not> st_active (iv_after test_norm ex_price ex_spot ex_spot ex_expiry (Fin 0) ex_call (Fin (1 / 10 ^ 6)) (Suc 0)) ! 0
   \<and> st_sigma (iv_after test_norm ex_price ex_spot ex_spot ex_expiry (Fin 0) ex_call (Fin (1 / 10 ^ 6)) (Suc 0)) ! 1 = Fin 0.8
   \<and> st_active (iv_after test_norm ex_price ex_spot ex_spot ex_expiry (Fin 0) ex_call (Fin (1 / 10 ^ 6)) (Suc 0)) ! 1
   \<and> st_result (iv_after test_norm ex_price ex_spot ex_spot ex_expiry (Fin 0) ex_call (Fin (1 / 10 ^ 6)) (Suc 0)) ! 1 = NaN
   \<and> st_sigma (iv_after test_norm ex_price ex_spot ex_spot ex_expiry (Fin 0) ex_call (Fin (1 / 10 ^ 6)) (Suc 0)) ! 2 = NaN
   \<and> \<not> st_active (iv_after test_norm ex_price ex_spot ex_spot ex_expiry (Fin 0) ex_call (Fin (1 / 10 ^ 6)) (Suc 0)) ! 2
   \<and> st_result (iv_after test_norm ex_price ex_spot ex_spot ex_expiry (Fin 0) ex_call (Fin (1 / 10 ^ 6)) (Suc 0)) ! 2 = NaN
   \<and> \<not> st_active (iv_after test_norm ex_price ex_spot ex_spot ex_expiry (Fin 0) ex_call (Fin (1 / 10 ^ 6)) (Suc 0)) ! 3
   \<and> st_result (iv_after test_norm ex_price ex_spot ex_spot ex_expiry (Fin 0) ex_call (Fin (1 / 10 ^ 6)) (Suc 0)) ! 3 = NaN"
proof -
  have i: "0 < length ex_price" "1 < length ex_price" "2 < length ex_price" "3 < length ex_price"
    by (simp_all add: ex_lengths)
  note z = iv_after_0 [of _ ex_price test_norm ex_spot ex_spot ex_expiry "Fin 0" ex_call "Fin (1 / 10 ^ 6)"]
  note t = newton_iteration_order [OF ex_lengths(1) ex_lengths(1) ex_lengths(2) ex_lengths(3),
      of _ test_norm "Fin 0" "Fin (1 / 10 ^ 6)" 0, unfolded Let_def, THEN conjunct2]
  have v: "ex_price ! 0 = Fin (1 / 2)" "ex_price ! 1 = Fin 1" "ex_price ! 2 = Fin 20"
    "ex_price ! 3 = Fin 1" "ex_spot ! 0 = Fin 1" "ex_spot ! 1 = Fin 1" "ex_spot ! 2 = Fin 1"
    "ex_spot ! 3 = Fin (1 / 10000000000000)" "ex_expiry ! 0 = Fin 1" "ex_expiry ! 1 = Fin 1"
    "ex_expiry ! 2 = Fin 1" "ex_expiry ! 3 = Fin 1" "ex_call ! 0" "ex_call ! 1" "ex_call ! 2"
    "ex_call ! 3" "ex_price ! Suc 0 = Fin 1" "ex_spot ! Suc 0 = Fin 1" "ex_expiry ! Suc 0 = Fin 1"
    "ex_call ! Suc 0"
    by (simp_all add: ex_price_def ex_spot_def ex_expiry_def ex_call_def)
  from t [OF i(1)] z [OF i(1)]
  have r0: "st_result (iv_after test_norm ex_price ex_spot ex_spot ex_expiry (Fin 0) ex_call (Fin (1 / 10 ^ 6)) (Suc 0)) ! 0 = Fin 0.3
   \<and> \<not> st_active (iv_after test_norm ex_price ex_spot ex_spot ex_expiry (Fin 0) ex_call (Fin (1 / 10 ^ 6)) (Suc 0)) ! 0"
    by (simp add: v row_eval_example fl_ops)
  from t [OF i(2)] z [OF i(2)]
  have r1: "st_sigma (iv_after test_norm ex_price ex_spot ex_spot ex_expiry (Fin 0) ex_call (Fin (1 / 10 ^ 6)) (Suc 0)) ! 1 = Fin 0.8
   \<and> st_active (iv_after test_norm ex_price ex_spot ex_spot ex_expiry (Fin 0) ex_call (Fin (1 / 10 ^ 6)) (Suc 0)) ! 1
   \<and> st_result (iv_after test_norm ex_price ex_spot ex_spot ex_expiry (Fin 0) ex_call (Fin (1 / 10 ^ 6)) (Suc 0)) ! 1 = NaN"
    by (simp add: v row_eval_example fl_ops)
  from t [OF i(3)] z [OF i(3)]
  have r2: "st_sigma (iv_after test_norm ex_price ex_spot ex_spot ex_expiry (Fin 0) ex_call (Fin (1 / 10 ^ 6)) (Suc 0)) ! 2 = NaN
   \<and> \<not> st_active (iv_after test_norm ex_price ex_spot ex_spot ex_expiry (Fin 0) ex_call (Fin (1 / 10 ^ 6)) (Suc 0)) ! 2
   \<and> st_result (iv_after test_norm ex_price ex_spot ex_spot ex_expiry (Fin 0) ex_call (Fin (1 / 10 ^ 6)) (Suc 0)) ! 2 = NaN"
    by (simp add: v row_eval_example fl_ops)
  from t [OF i(4)] z [OF i(4)]
  have r3: "\<not> st_active (iv_after test_norm ex_price ex_spot ex_spot ex_expiry (Fin 0) ex_call (Fin (1 / 10 ^ 6)) (Suc 0)) ! 3
   \<and> st_result (iv_after test_norm ex_price ex_spot ex_spot ex_expiry (Fin 0) ex_call (Fin (1 / 10 ^ 6)) (Suc 0)) ! 3 = NaN"
    by (simp add: v row_eval_example fl_ops)
  from z [OF i(2)] r0 r1 r2 r3 show ?thesis by blast
qed

theorem newton_unconverged_rows_nan_witness:
  "vectorized_iv test_norm ex_price ex_spot ex_spot ex_expiry (Fin 0) ex_call (Fin (1 / 10 ^ 6)) (Suc 0)
     = Inr (st_result (iv_after test_norm ex_price ex_spot ex_spot ex_expiry (Fin 0) ex_call (Fin (1 / 10 ^ 6)) (Suc 0)))
   \<and> length (st_result (iv_after test_norm ex_price ex_spot ex_spot ex_expiry (Fin 0) ex_call (Fin (1 / 10 ^ 6)) (Suc 0))) = 4
   \<and> st_active (iv_after test_norm ex_price ex_spot ex_spot ex_expiry (Fin 0) ex_call (Fin (1 / 10 ^ 6)) (Suc 0)) ! 1
   \<and> st_result (iv_after test_norm ex_price ex_spot ex_spot ex_expiry (Fin 0) ex_call (Fin (1 / 10 ^ 6)) (Suc 0)) ! 1 = NaN"
proof -
  note t = newton_unconverged_rows_nan [OF ex_lengths(1) ex_lengths(1) ex_lengths(2) ex_lengths(3),
      of test_norm "Fin 0" "Fin (1 / 10 ^ 6)" "Suc 0"]
  have a: "st_active (iv_after test_norm ex_price ex_spot ex_spot ex_expiry (Fin 0) ex_call (Fin (1 / 10 ^ 6)) (Suc 0)) ! 1"
    using newton_example_rows(2) by simp
  have "(1::nat) < length ex_price" by (simp add: ex_lengths)
  with t a show ?thesis by (simp add: ex_lengths)
qed

text \<open>
  The scalar solver started with a NaN volatility stays at NaN and uses up its
  budget.
\<close>

lemma implied_volatility_loop_nan:
  "K \<noteq> Fin 0 \<Longrightarrow>
   implied_volatility_loop (norm_ext Phi phi) market_price S K T r is_call tol n NaN = Inl ValueError"
  by (induction n) (simp_all add: Let_def py_pow2_def norm_ext_def fl_nan)

text \<open>
  C5, counterexample. The scalar Newton solver of VI.py raises on
  non-convergence. For an expired call (\<open>T = 0\<close>) at the money, underlying and
  strike 100, quoted at 5, with rate 0.04 and the default budget of 100
  iterations, \<open>d1\<close> is \<open>0 / 0\<close>, the price difference is NaN in every iteration
  and the call ends with ValueError, for every distribution function.
\<close>

theorem implied_volatility_expired_raises:
  "\<forall>Phi phi. implied_volatility (norm_ext Phi phi) (Fin 5) (Fin 100) (Fin 100) (Fin 0) (Fin 0.04)
      True (Fin (1 / 10 ^ 6)) 100 = Inl ValueError"
proof (intro allI)
  fix Phi phi :: "real \<Rightarrow> real"
  have k: "Fin 100 \<noteq> Fin 0" by simp
  have d1: "(np_log (Fin 100 / Fin 100) + (Fin 0.04 + Fin 0.5 * py_pow2 (Fin 0.3)) * Fin 0)
             / (Fin 0.3 * np_sqrt (Fin 0)) = NaN"
    by (simp add: fl_ops py_pow2_def signed_inf_def)
  have "implied_volatility_loop (norm_ext Phi phi) (Fin 5) (Fin 100) (Fin 100) (Fin 0) (Fin 0.04)
          True (Fin (1 / 10 ^ 6)) (Suc 99) (Fin 0.3)
        = implied_volatility_loop (norm_ext Phi phi) (Fin 5) (Fin 100) (Fin 100) (Fin 0) (Fin 0.04)
          True (Fin (1 / 10 ^ 6)) 99 NaN"
    unfolding implied_volatility_loop.simps Let_def d1
    by (simp add: norm_ext_def fl_nan)
  also note implied_volatility_loop_nan [OF k]
  finally show "implied_volatility (norm_ext Phi phi) (Fin 5) (Fin 100) (Fin 100) (Fin 0) (Fin 0.04)
      True (Fin (1 / 10 ^ 6)) 100 = Inl ValueError"
    by (simp only: implied_volatility_def eval_nat_numeral) simp
qed

theorem newton_give_up_is_final_witness:
  "st_result (iv_after test_norm ex_price ex_spot ex_spot ex_expiry (Fin 0) ex_call (Fin (1 / 10 ^ 6)) 0) ! 0 = NaN
   \<and> st_result (iv_after test_norm ex_price ex_spot ex_spot ex_expiry (Fin 0) ex_call (Fin (1 / 10 ^ 6)) (Suc 0)) ! 0 = Fin 0.3
   \<and> \<not> st_active (iv_after test_norm ex_price ex_spot ex_spot ex_expiry (Fin 0) ex_call (Fin (1 / 10 ^ 6)) (Suc 0)) ! 0
   \<and> st_result (iv_after test_norm ex_price ex_spot ex_spot ex_expiry (Fin 0) ex_call (Fin (1 / 10 ^ 6)) 100) ! 0 = Fin 0.3
   \<and> \<not> st_active (iv_after test_norm ex_price ex_spot ex_spot ex_expiry (Fin 0) ex_call (Fin (1 / 10 ^ 6)) (Suc 0)) ! 2
   \<and> st_result (iv_after test_norm ex_price ex_spot ex_spot ex_expiry (Fin 0) ex_call (Fin (1 / 10 ^ 6)) 100) ! 2 = NaN"
proof -
  have i: "0 < length ex_price" "2 < length ex_price" by (simp_all add: ex_lengths)
  note t0 = newton_give_up_is_final [OF ex_lengths(1) ex_lengths(1) ex_lengths(2) ex_lengths(3) i(1),
      of test_norm "Fin 0" "Fin (1 / 10 ^ 6)"]
  note t2 = newton_give_up_is_final [OF ex_lengths(1) ex_lengths(1) ex_lengths(2) ex_lengths(3) i(2),
      of test_norm "Fin 0" "Fin (1 / 10 ^ 6)"]
  have le: "Suc 0 \<le> 100" by simp
  have e0: "st_result (iv_after test_norm ex_price ex_spot ex_spot ex_expiry (Fin 0) ex_call (Fin (1 / 10 ^ 6)) (Suc 0)) ! 0 = Fin 0.3"
    "\<not> st_active (iv_after test_norm ex_price ex_spot ex_spot ex_expiry (Fin 0) ex_call (Fin (1 / 10 ^ 6)) (Suc 0)) ! 0"
    using newton_example_rows(1) by simp_all
  have e2: "st_result (iv_after test_norm ex_price ex_spot ex_spot ex_expiry (Fin 0) ex_call (Fin (1 / 10 ^ 6)) (Suc 0)) ! 2 = NaN"
    "\<not> st_active (iv_after test_norm ex_price ex_spot ex_spot ex_expiry (Fin 0) ex_call (Fin (1 / 10 ^ 6)) (Suc 0)) ! 2"
    using newton_example_rows(3) by simp_all
  from t0 have z: "st_result (iv_after test_norm ex_price ex_spot ex_spot ex_expiry (Fin 0) ex_call (Fin (1 / 10 ^ 6)) 0) ! 0 = NaN"
    by (rule conjunct2 [THEN conjunct2, THEN conjunct1])
  from t0 [THEN conjunct1, rule_format, of "Suc 0" 100] le e0
  have f0: "st_result (iv_after test_norm ex_price ex_spot ex_spot ex_expiry (Fin 0) ex_call (Fin (1 / 10 ^ 6)) 100) ! 0 = Fin 0.3"
    by simp
  from t2 [THEN conjunct1, rule_format, of "Suc 0" 100] le e2
  have f2: "st_result (iv_after test_norm ex_price ex_spot ex_spot ex_expiry (Fin 0) ex_call (Fin (1 / 10 ^ 6)) 100) ! 2 = NaN"
    by simp
  from z e0 f0 e2 f2 show ?thesis by blast
qed

text \<open>
  C6 (amended). In the bracketed per-row solver a row with \<open>T \<le> 0\<close>,
  \<open>mkt_price \<le> 0\<close>, \<open>S \<le> 0\<close> or \<open>K \<le> 0\<close> gets NaN at once: the solver prices
  nothing and does not call the root-finder, whatever the distribution and the
  root-finder are. The Newton solver has no check of the geometry. Called on
  arrays of one length with an iteration budget of at least one, it runs its first
  iteration on the initial arrays, and after that iteration the trial volatility,
  the result and the active flag of every row, whatever its \<open>T\<close>, \<open>S\<close>, \<open>K\<close> and
  market price, are what the rule of the iteration (converged, degenerate vega,
  step, divergent) gives from the price difference and the vega of the row at the
  seed 0.3. The solver raises nothing and returns the result array, and a row
  whose price difference at the seed is below the tolerance has the result 0.3
  in it.
\<close>

theorem invalid_geometry_by_solver:
  "(T \<le> 0 \<or> mkt_price \<le> 0 \<or> S \<le> 0 \<or> K \<le> 0
      \<longrightarrow> solve_iv_traced N brentq (S, K, T, r, q, mkt_price, is_call) = ([], Inr NaN)
          \<and> solve_iv N brentq (S, K, T, r, q, mkt_price, is_call) = Inr NaN)
   \<and> (length Ss = length prices \<and> length Ks = length prices \<and> length Ts = length prices
        \<and> length calls = length prices \<and> j < length prices
      \<longrightarrow> vectorized_iv_state N prices Ss Ks Ts rate calls tol (Suc m)
            = iv_loop N prices Ss Ks Ts rate calls tol m
                (iv_after N prices Ss Ks Ts rate calls tol (Suc 0))
          \<and> (st_sigma (iv_after N prices Ss Ks Ts rate calls tol (Suc 0)) ! j,
           st_result (iv_after N prices Ss Ks Ts rate calls tol (Suc 0)) ! j,
           st_active (iv_after N prices Ss Ks Ts rate calls tol (Suc 0)) ! j)
          = row_step tol
              (row_diff N rate (Fin 0.3) (prices ! j) (Ss ! j) (Ks ! j) (Ts ! j) (calls ! j))
              (row_vega N rate (Fin 0.3) (Ss ! j) (Ks ! j) (Ts ! j))
              (Fin 0.3, NaN, True)
          \<and> vectorized_iv N prices Ss Ks Ts rate calls tol (Suc m)
              = Inr (st_result (iv_after N prices Ss Ks Ts rate calls tol (Suc m)))
          \<and> (\<bar>row_diff N rate (Fin 0.3) (prices ! j) (Ss ! j) (Ks ! j) (Ts ! j) (calls ! j)\<bar> < tol
              \<longrightarrow> st_result (iv_after N prices Ss Ks Ts rate calls tol (Suc m)) ! j = Fin 0.3))"
proof (intro conjI impI; (elim conjE)?)
  assume "T \<le> 0 \<or> mkt_price \<le> 0 \<or> S \<le> 0 \<or> K \<le> 0"
  then show "solve_iv_traced N brentq (S, K, T, r, q, mkt_price, is_call) = ([], Inr NaN)"
    and "solve_iv N brentq (S, K, T, r, q, mkt_price, is_call) = Inr NaN"
    by (simp_all add: solve_iv_def solve_iv_traced_def)
next
  assume len: "length Ss = length prices" "length Ks = length prices" "length Ts = length prices"
    "length calls = length prices" and j: "j < length prices"
  note z = iv_after_0 [OF j, of N Ss Ks Ts rate calls tol]
  note row = iv_after_row [OF len j, of N rate tol 0]
  from j have "np_any (replicate (length prices) True)"
    by (auto simp: np_any_iff)
  with len show "vectorized_iv_state N prices Ss Ks Ts rate calls tol (Suc m)
          = iv_loop N prices Ss Ks Ts rate calls tol m
              (iv_after N prices Ss Ks Ts rate calls tol (Suc 0))"
    by (simp add: vectorized_iv_state_def iv_after_def iv_init_def)
  show first: "(st_sigma (iv_after N prices Ss Ks Ts rate calls tol (Suc 0)) ! j,
           st_result (iv_after N prices Ss Ks Ts rate calls tol (Suc 0)) ! j,
           st_active (iv_after N prices Ss Ks Ts rate calls tol (Suc 0)) ! j)
          = row_step tol
              (row_diff N rate (Fin 0.3) (prices ! j) (Ss ! j) (Ks ! j) (Ts ! j) (calls ! j))
              (row_vega N rate (Fin 0.3) (Ss ! j) (Ks ! j) (Ts ! j))
              (Fin 0.3, NaN, True)"
    using row z by simp
  show "vectorized_iv N prices Ss Ks Ts rate calls tol (Suc m)
          = Inr (st_result (iv_after N prices Ss Ks Ts rate calls tol (Suc m)))"
    using vectorized_iv_state_after [OF len] by (simp add: vectorized_iv_def)
  assume conv: "\<bar>row_diff N rate (Fin 0.3) (prices ! j) (Ss ! j) (Ks ! j) (Ts ! j) (calls ! j)\<bar> < tol"
  from first conv
  have one: "\<not> st_active (iv_after N prices Ss Ks Ts rate calls tol (Suc 0)) ! j"
    "st_result (iv_after N prices Ss Ks Ts rate calls tol (Suc 0)) ! j = Fin 0.3"
    by (simp_all add: row_step_simps)
  from iv_after_inactive_stays [OF len j one(1), of m] one(2)
  show "st_result (iv_after N prices Ss Ks Ts rate calls tol (Suc m)) ! j = Fin 0.3"
    by simp
qed

lemma row_diff_expired_example:
  "row_diff test_norm (Fin 0.065) (Fin 0.3) (Fin 50) (Fin 100) (Fin 50) (Fin 0) True = Fin 0"
  by (simp add: row_diff_def row_d1_def Let_def fl_ops py_pow2_def signed_inf_def sgn_if
        test_norm_def norm_ext_def)

theorem invalid_geometry_by_solver_witness:
  "(Fin 0 \<le> (0::fl) \<or> Fin 1 \<le> (0::fl) \<or> Fin 100 \<le> (0::fl) \<or> Fin 100 \<le> (0::fl))
   \<and> solve_iv_traced test_norm test_brentq
        (Fin 100, Fin 100, Fin 0, Fin 0.068, Fin 0, Fin 1, True) = ([], Inr NaN)
   \<and> solve_iv test_norm test_brentq
        (Fin 100, Fin 100, Fin 0, Fin 0.068, Fin 0, Fin 1, True) = Inr NaN
   \<and> \<bar>row_diff test_norm (Fin 0.065) (Fin 0.3) (Fin 50) (Fin 100) (Fin 50) (Fin 0) True\<bar>
       < Fin (1 / 10 ^ 6)
   \<and> vectorized_iv test_norm [Fin 50] [Fin 100] [Fin 50] [Fin 0] (Fin 0.065) [True]
        (Fin (1 / 10 ^ 6)) (Suc 0)
       = Inr (st_result (iv_after test_norm [Fin 50] [Fin 100] [Fin 50] [Fin 0] (Fin 0.065) [True]
                (Fin (1 / 10 ^ 6)) (Suc 0)))
   \<and> st_result (iv_after test_norm [Fin 50] [Fin 100] [Fin 50] [Fin 0] (Fin 0.065) [True]
        (Fin (1 / 10 ^ 6)) (Suc 0)) ! 0 = Fin 0.3"
proof -
  have h: "Fin 0 \<le> (0::fl) \<or> Fin 1 \<le> (0::fl) \<or> Fin 100 \<le> (0::fl) \<or> Fin 100 \<le> (0::fl)"
    by (simp add: fl_ops)
  have c: "\<bar>row_diff test_norm (Fin 0.065) (Fin 0.3) (Fin 50) (Fin 100) (Fin 50) (Fin 0) True\<bar>
       < Fin (1 / 10 ^ 6)"
    by (simp only: row_diff_expired_example) (simp add: fl_ops)
  note t = invalid_geometry_by_solver [where T = "Fin 0" and mkt_price = "Fin 1" and S = "Fin 100"
      and K = "Fin 100" and N = test_norm and brentq = test_brentq and r = "Fin 0.068"
      and q = "Fin 0" and is_call = True and Ss = "[Fin 100]" and prices = "[Fin 50]"
      and Ks = "[Fin 50]" and Ts = "[Fin 0]" and calls = "[True]" and j = 0
      and rate = "Fin 0.065" and tol = "Fin (1 / 10 ^ 6)" and m = 0]
  from t h have a: "solve_iv_traced test_norm test_brentq
        (Fin 100, Fin 100, Fin 0, Fin 0.068, Fin 0, Fin 1, True) = ([], Inr NaN)
   \<and> solve_iv test_norm test_brentq
        (Fin 100, Fin 100, Fin 0, Fin 0.068, Fin 0, Fin 1, True) = Inr NaN"
    by blast
  from t c have b: "vectorized_iv test_norm [Fin 50] [Fin 100] [Fin 50] [Fin 0] (Fin 0.065) [True]
        (Fin (1 / 10 ^ 6)) (Suc 0)
       = Inr (st_result (iv_after test_norm [Fin 50] [Fin 100] [Fin 50] [Fin 0] (Fin 0.065) [True]
                (Fin (1 / 10 ^ 6)) (Suc 0)))
   \<and> st_result (iv_after test_norm [Fin 50] [Fin 100] [Fin 50] [Fin 0] (Fin 0.065) [True]
        (Fin (1 / 10 ^ 6)) (Suc 0)) ! 0 = Fin 0.3"
    by simp
  from h a c b show ?thesis by blast
qed

text \<open>
  C6, counterexample. The Newton solver does not check the geometry of a row. A
  call with \<open>T = 0\<close> (expired), underlying 100 and strike 50, quoted at 50, is
  priced in the first iteration like any other row: \<open>d1\<close> and \<open>d2\<close> are
  \<open>+\<infinity>\<close>, the model price is \<open>100 - 50\<close>, the difference is zero, the row
  converges and its result is the seed 0.3, not NaN.
\<close>

theorem vectorized_iv_expired_row_converges:
  "Fin 0 \<le> (0::fl) \<and>
   (\<forall>Phi phi. vectorized_iv (norm_ext Phi phi) [Fin 50] [Fin 100] [Fin 50] [Fin 0] (Fin 0.065)
      [True] (Fin (1 / 10 ^ 6)) 100 = Inr [Fin 0.3])"
  by (simp add: vectorized_iv_def vectorized_iv_state_def iv_init_def iv_loop_numeral
      iv_iteration_def Let_def np_defs fl_ops py_pow2_def norm_ext_def signed_inf_def sgn_if)

section \<open>Pricing at a volatility and solving from the price\<close>













section \<open>The vectorized Greeks\<close>

text \<open>
  On arrays of one length the mask \<open>valid\<close> is the validity condition of each row,
  the arrays indexed by it list the valid rows in order, and writing an array of
  values through the mask puts each value at its row. So the array code computes,
  row by row, the formulas of the specification.
\<close>

lemma np_and_map:
  "np_and (Inr (map p xs)) (map q xs) = Inr (map (\<lambda>i. p i \<and> q i) xs)"
  by (simp add: np_and_def v_ops_map)

lemma np_where_map_upt: "np_where (map V [0..<n]) = filter V [0..<n]"
  by (auto simp: np_where_def intro: filter_cong)

lemma np_put_mask_map:
  "np_put_mask (replicate n c) (map V [0..<n]) (map h (filter V [0..<n]))
     = map (\<lambda>i. if V i then h i else c) [0..<n]"
  by (rule nth_equalityI) (simp_all add: np_put_mask_def np_where_map_upt np_put_map_nth)

lemma map_none_valid:
  "\<not> np_any (map V [0..<n]) \<Longrightarrow> map (\<lambda>i. if V i then h i else c) [0..<n] = replicate n c"
  by (rule nth_equalityI) (simp_all add: np_any_iff)

lemma compute_greeks_rows:
  fixes fS fK fT fsig :: "nat \<Rightarrow> fl" and fc :: "nat \<Rightarrow> bool"
  defines "V \<equiv> \<lambda>i. spec_valid (fS i) (fK i) (fT i) (fsig i)"
  shows "compute_greeks_vectorized N (map fS [0..<n]) (map fK [0..<n]) (map fT [0..<n]) r q
           (map fsig [0..<n]) (map fc [0..<n]) =
    Inr (map (\<lambda>i. if V i then spec_delta N (fS i) (fK i) (fT i) r q (fsig i) (fc i) else NaN) [0..<n],
         map (\<lambda>i. if V i then spec_gamma N (fS i) (fK i) (fT i) r q (fsig i) else NaN) [0..<n],
         map (\<lambda>i. if V i then spec_vega N (fS i) (fK i) (fT i) r q (fsig i) else NaN) [0..<n],
         map (\<lambda>i. if V i then spec_theta N (fS i) (fK i) (fT i) r q (fsig i) (fc i) else NaN) [0..<n],
         map (\<lambda>i. if V i then spec_rho N (fS i) (fK i) (fT i) r q (fsig i) (fc i) else NaN) [0..<n])"
proof -
  have valid: "np_and (np_and (np_and (np_and (Inr (map np_isfinite (map fsig [0..<n])))
                   (map (\<lambda>x. 0 < x) (map fT [0..<n])))
             (map (\<lambda>x. 0 < x) (map fS [0..<n]))) (map (\<lambda>x. 0 < x) (map fK [0..<n])))
           (map (\<lambda>x. 0 < x) (map fsig [0..<n])) = Inr (map V [0..<n])"
    by (simp add: np_and_map o_def V_def spec_valid_def)
  show ?thesis
  proof (cases "np_any (map V [0..<n])")
    case False
    then show ?thesis
      unfolding compute_greeks_vectorized_def valid
      by (simp add: map_none_valid Let_def)
  next
    case True
    then show ?thesis
      unfolding compute_greeks_vectorized_def valid
      by (simp add: Let_def np_mask_map_map v_ops_map np_select_map o_def np_put_mask_map
            spec_delta_def spec_gamma_def spec_vega_def spec_theta_def spec_rho_def
            spec_common_theta_def spec_d1_def spec_d2_def
            if_distrib [of "\<lambda>x. x / _"] cong: if_cong)
  qed
qed


text \<open>
  Arrays whose lengths do not broadcast make the mask raise ValueError; a mask
  longer than an array it indexes raises IndexError.
\<close>

lemma compute_greeks_shape_errors:
  "compute_greeks_vectorized N [Fin 1, Fin 1] [Fin 1, Fin 1] [Fin 1, Fin 1, Fin 1] r q
     [Fin 1, Fin 1] [True, True] = Inl ValueError"
  "compute_greeks_vectorized N [Fin 1] [Fin 1, Fin 1] [Fin 1, Fin 1] r q
     [Fin 1, Fin 1] [True, True] = Inl IndexError"
  by (simp_all add: compute_greeks_vectorized_def np_and_def v_and_def np_any_def fl_ops)

text \<open>
  C4. Given arrays \<open>S\<close>, \<open>K\<close>, \<open>T\<close>, \<open>sigma\<close> and \<open>is_call\<close> of one length \<open>n\<close>, scalars
  \<open>r\<close> and \<open>q\<close>, and any distribution functions, the Greeks evaluator raises nothing
  and returns five arrays \<open>delta\<close>, \<open>gamma\<close>, \<open>vega\<close>, \<open>theta\<close> and \<open>rho\<close> of length
  \<open>n\<close>. On every row where the combined validity condition holds (\<open>sigma\<close> finite,
  \<open>T > 0\<close>, \<open>S > 0\<close>, \<open>K > 0\<close>, \<open>sigma > 0\<close>) each of the five entries is the
  closed-form formula of the specification at that row, with the call or the put
  formula chosen by the row's \<open>is_call\<close>; on every other row all five entries are
  the sentinel NaN. In particular every row whose \<open>sigma\<close> is NaN has all five
  Greeks NaN.
\<close>

theorem greeks_masked_closed_form:
  assumes len: "length S = n" "length K = n" "length T = n" "length sigma = n" "length is_call = n"
  shows "\<exists>delta gamma vega theta rho.
      compute_greeks_vectorized N S K T r q sigma is_call = Inr (delta, gamma, vega, theta, rho)
    \<and> length delta = n \<and> length gamma = n \<and> length vega = n \<and> length theta = n \<and> length rho = n
    \<and> (\<forall>i<n.
          (if spec_valid (S ! i) (K ! i) (T ! i) (sigma ! i)
           then delta ! i = spec_delta N (S ! i) (K ! i) (T ! i) r q (sigma ! i) (is_call ! i)
              \<and> gamma ! i = spec_gamma N (S ! i) (K ! i) (T ! i) r q (sigma ! i)
              \<and> vega ! i = spec_vega N (S ! i) (K ! i) (T ! i) r q (sigma ! i)
              \<and> theta ! i = spec_theta N (S ! i) (K ! i) (T ! i) r q (sigma ! i) (is_call ! i)
              \<and> rho ! i = spec_rho N (S ! i) (K ! i) (T ! i) r q (sigma ! i) (is_call ! i)
           else delta ! i = NaN \<and> gamma ! i = NaN \<and> vega ! i = NaN \<and> theta ! i = NaN
              \<and> rho ! i = NaN)
        \<and> (sigma ! i = NaN
            \<longrightarrow> delta ! i = NaN \<and> gamma ! i = NaN \<and> vega ! i = NaN \<and> theta ! i = NaN
              \<and> rho ! i = NaN))"
proof -
  have arr: "S = map (\<lambda>i. S ! i) [0..<n]" "K = map (\<lambda>i. K ! i) [0..<n]"
    "T = map (\<lambda>i. T ! i) [0..<n]" "sigma = map (\<lambda>i. sigma ! i) [0..<n]"
    "is_call = map (\<lambda>i. is_call ! i) [0..<n]"
    using map_nth [of S] map_nth [of K] map_nth [of T] map_nth [of sigma] map_nth [of is_call] len
    by simp_all
  have "compute_greeks_vectorized N S K T r q sigma is_call =
      compute_greeks_vectorized N (map (\<lambda>i. S ! i) [0..<n]) (map (\<lambda>i. K ! i) [0..<n])
        (map (\<lambda>i. T ! i) [0..<n]) r q (map (\<lambda>i. sigma ! i) [0..<n]) (map (\<lambda>i. is_call ! i) [0..<n])"
    using arr by simp
  also note compute_greeks_rows
  finally have eq: "compute_greeks_vectorized N S K T r q sigma is_call =
    Inr (map (\<lambda>i. if spec_valid (S ! i) (K ! i) (T ! i) (sigma ! i)
                   then spec_delta N (S ! i) (K ! i) (T ! i) r q (sigma ! i) (is_call ! i) else NaN) [0..<n],
         map (\<lambda>i. if spec_valid (S ! i) (K ! i) (T ! i) (sigma ! i)
                   then spec_gamma N (S ! i) (K ! i) (T ! i) r q (sigma ! i) else NaN) [0..<n],
         map (\<lambda>i. if spec_valid (S ! i) (K ! i) (T ! i) (sigma ! i)
                   then spec_vega N (S ! i) (K ! i) (T ! i) r q (sigma ! i) else NaN) [0..<n],
         map (\<lambda>i. if spec_valid (S ! i) (K ! i) (T ! i) (sigma ! i)
                   then spec_theta N (S ! i) (K ! i) (T ! i) r q (sigma ! i) (is_call ! i) else NaN) [0..<n],
         map (\<lambda>i. if spec_valid (S ! i) (K ! i) (T ! i) (sigma ! i)
                   then spec_rho N (S ! i) (K ! i) (T ! i) r q (sigma ! i) (is_call ! i) else NaN) [0..<n])" .
  have sentinel: "\<not> spec_valid s k t NaN" for s k t
    by (simp add: spec_valid_def)
  show ?thesis
    unfolding eq by (intro exI conjI, rule refl) (auto simp: sentinel)
qed

text \<open>
  A batch of four rows with zero rates: a valid call, a call whose \<open>sigma\<close> is the
  sentinel, a valid put and a call with \<open>T = 0\<close>.
\<close>

theorem greeks_masked_closed_form_witness:
  "\<exists>delta gamma vega theta rho.
      compute_greeks_vectorized test_norm [Fin 1, Fin 1, Fin 1, Fin 1] [Fin 1, Fin 1, Fin 1, Fin 1]
        [Fin 1, Fin 1, Fin 1, Fin 0] (Fin 0) (Fin 0) [Fin 1, NaN, Fin 1, Fin 1]
        [True, True, False, True] = Inr (delta, gamma, vega, theta, rho)
    \<and> delta = [Fin (1 / 2), NaN, Fin (- (1 / 2)), NaN]
    \<and> gamma = [Fin 1, NaN, Fin 1, NaN]
    \<and> vega = [Fin (1 / 100), NaN, Fin (1 / 100), NaN]
    \<and> theta = [Fin (- (1 / 730)), NaN, Fin (- (1 / 730)), NaN]
    \<and> rho = [Fin 0, NaN, Fin (- (1 / 200)), NaN]"
proof -
  let ?S = "[Fin 1, Fin 1, Fin 1, Fin 1]" and ?T = "[Fin 1, Fin 1, Fin 1, Fin 0]"
  let ?sig = "[Fin 1, NaN, Fin 1, Fin 1]" and ?c = "[True, True, False, True]"
  from greeks_masked_closed_form [of ?S 4 ?S ?T ?sig ?c test_norm "Fin 0" "Fin 0"]
  obtain delta gamma vega theta rho where
    res: "compute_greeks_vectorized test_norm ?S ?S ?T (Fin 0) (Fin 0) ?sig ?c
            = Inr (delta, gamma, vega, theta, rho)"
    and l: "length delta = 4" "length gamma = 4" "length vega = 4" "length theta = 4" "length rho = 4"
    and rows: "\<forall>i<4.
          (if spec_valid (?S ! i) (?S ! i) (?T ! i) (?sig ! i)
           then delta ! i = spec_delta test_norm (?S ! i) (?S ! i) (?T ! i) (Fin 0) (Fin 0) (?sig ! i) (?c ! i)
              \<and> gamma ! i = spec_gamma test_norm (?S ! i) (?S ! i) (?T ! i) (Fin 0) (Fin 0) (?sig ! i)
              \<and> vega ! i = spec_vega test_norm (?S ! i) (?S ! i) (?T ! i) (Fin 0) (Fin 0) (?sig ! i)
              \<and> theta ! i = spec_theta test_norm (?S ! i) (?S ! i) (?T ! i) (Fin 0) (Fin 0) (?sig ! i) (?c ! i)
              \<and> rho ! i = spec_rho test_norm (?S ! i) (?S ! i) (?T ! i) (Fin 0) (Fin 0) (?sig ! i) (?c ! i)
           else delta ! i = NaN \<and> gamma ! i = NaN \<and> vega ! i = NaN \<and> theta ! i = NaN
              \<and> rho ! i = NaN)
        \<and> (?sig ! i = NaN
            \<longrightarrow> delta ! i = NaN \<and> gamma ! i = NaN \<and> vega ! i = NaN \<and> theta ! i = NaN
              \<and> rho ! i = NaN)"
    by auto
  have four: "xs = [xs ! 0, xs ! 1, xs ! 2, xs ! 3]" if "length xs = 4" for xs :: "fl list"
    using that by (auto simp: length_Suc_conv numeral_eq_Suc)
  have d1: "spec_d1 (Fin 1) (Fin 1) (Fin 1) (Fin 0) (Fin 0) (Fin 1) = Fin (1 / 2)"
    by (simp add: spec_d1_def fl_ops py_pow2_def)
  have d2: "spec_d2 (Fin 1) (Fin 1) (Fin 1) (Fin 0) (Fin 0) (Fin 1) = Fin (- (1 / 2))"
    by (simp add: spec_d2_def d1 fl_ops)
  have ev1: "spec_delta test_norm (Fin 1) (Fin 1) (Fin 1) (Fin 0) (Fin 0) (Fin 1) True = Fin (1 / 2)"
    by (simp add: spec_delta_def d1 fl_ops)
  have ev2: "spec_delta test_norm (Fin 1) (Fin 1) (Fin 1) (Fin 0) (Fin 0) (Fin 1) False = Fin (- (1 / 2))"
    by (simp add: spec_delta_def d1 fl_ops)
  have ev3: "spec_gamma test_norm (Fin 1) (Fin 1) (Fin 1) (Fin 0) (Fin 0) (Fin 1) = Fin 1"
    by (simp add: spec_gamma_def d1 fl_ops)
  have ev4: "spec_vega test_norm (Fin 1) (Fin 1) (Fin 1) (Fin 0) (Fin 0) (Fin 1) = Fin (1 / 100)"
    by (simp add: spec_vega_def d1 fl_ops)
  have ev5: "spec_theta test_norm (Fin 1) (Fin 1) (Fin 1) (Fin 0) (Fin 0) (Fin 1) c = Fin (- (1 / 730))" for c
    by (simp add: spec_theta_def spec_common_theta_def d1 d2 fl_ops)
  have ev6: "spec_rho test_norm (Fin 1) (Fin 1) (Fin 1) (Fin 0) (Fin 0) (Fin 1) True = Fin 0"
    by (simp add: spec_rho_def d1 d2 fl_ops)
  have ev7: "spec_rho test_norm (Fin 1) (Fin 1) (Fin 1) (Fin 0) (Fin 0) (Fin 1) False = Fin (- (1 / 200))"
    by (simp add: spec_rho_def d1 d2 fl_ops)
  have v: "spec_valid (Fin 1) (Fin 1) (Fin 1) (Fin 1)" "\<not> spec_valid (Fin 1) (Fin 1) (Fin 1) NaN"
    "\<not> spec_valid (Fin 1) (Fin 1) (Fin 0) (Fin 1)"
    by (simp_all add: spec_valid_def fl_ops)
  from rows have r0: "delta ! 0 = Fin (1 / 2) \<and> gamma ! 0 = Fin 1 \<and> vega ! 0 = Fin (1 / 100)
      \<and> theta ! 0 = Fin (- (1 / 730)) \<and> rho ! 0 = Fin 0"
    by (auto dest!: spec [where x = 0] simp: v ev1 ev3 ev4 ev5 ev6)
  from rows have r1: "delta ! 1 = NaN \<and> gamma ! 1 = NaN \<and> vega ! 1 = NaN
      \<and> theta ! 1 = NaN \<and> rho ! 1 = NaN"
    by (auto dest!: spec [where x = 1] simp: v)
  from rows have r2: "delta ! 2 = Fin (- (1 / 2)) \<and> gamma ! 2 = Fin 1 \<and> vega ! 2 = Fin (1 / 100)
      \<and> theta ! 2 = Fin (- (1 / 730)) \<and> rho ! 2 = Fin (- (1 / 200))"
    by (auto dest!: spec [where x = 2] simp: v ev2 ev3 ev4 ev5 ev7)
  from rows have r3: "delta ! 3 = NaN \<and> gamma ! 3 = NaN \<and> vega ! 3 = NaN
      \<and> theta ! 3 = NaN \<and> rho ! 3 = NaN"
    by (auto dest!: spec [where x = 3] simp: v)
  show ?thesis
    apply (intro exI conjI)
         apply (rule res)
    using four [OF l(1)] four [OF l(2)] four [OF l(3)] four [OF l(4)] four [OF l(5)] r0 r1 r2 r3
        apply simp_all
    done
qed

section \<open>The worker orchestrator\<close>

lemma solve_rows_acc:
  "solve_rows f xs acc = (case solve_rows f xs [] of Inl e \<Rightarrow> Inl e | Inr vs \<Rightarrow> Inr (acc @ vs))"
proof (induction xs arbitrary: acc)
  case Nil
  then show ?case by simp
next
  case (Cons a xs)
  show ?case
  proof (cases "f a")
    case (Inl e)
    then show ?thesis by simp
  next
    case (Inr v)
    then show ?thesis
      using Cons.IH [of "acc @ [v]"] Cons.IH [of "[v]"]
      by (simp split: sum.splits)
  qed
qed

lemma solve_rows_append:
  "solve_rows f (xs @ ys) [] =
    (case solve_rows f xs [] of Inl e \<Rightarrow> Inl e
     | Inr vs \<Rightarrow> (case solve_rows f ys [] of Inl e \<Rightarrow> Inl e | Inr ws \<Rightarrow> Inr (vs @ ws)))"
proof (induction xs)
  case Nil
  then show ?case by (simp split: sum.splits)
next
  case (Cons a xs)
  show ?case
  proof (cases "f a")
    case (Inl e)
    then show ?thesis by simp
  next
    case (Inr v)
    then show ?thesis
      using Cons.IH solve_rows_acc [of f "xs @ ys" "[v]"] solve_rows_acc [of f xs "[v]"]
      by (simp split: sum.splits)
  qed
qed

lemma solve_rows_length:
  "solve_rows f xs [] = Inr vs \<Longrightarrow> length vs = length xs"
proof (induction xs arbitrary: vs)
  case Nil
  then show ?case by simp
next
  case (Cons a xs)
  then show ?case
    using solve_rows_acc [of f xs "[projr (f a)]"]
    by (auto split: sum.splits)
qed

lemma split_chunks_Nil: "0 < c \<Longrightarrow> split_chunks c [] = Inr []"
  by (simp add: split_chunks_def py_range_def)

lemma chunk_count_step:
  assumes "0 < c" "0 < (n::nat)"
  shows "(n + c - 1) div c = Suc ((n - c + c - 1) div c)"
proof (cases "c \<le> n")
  case True
  have e: "n + c - 1 = (n - 1) + c" using assms by arith
  have "(n + c - 1) div c = ((n - 1) + c) div c" by (simp only: e)
  also have "\<dots> = Suc ((n - 1) div c)" using assms(1) by (simp only: div_add_self2 Suc_eq_plus1)
  finally have "(n + c - 1) div c = Suc ((n - 1) div c)" .
  moreover have "n - c + c - 1 = n - 1" using True by arith
  ultimately show ?thesis by (simp only:)
next
  case False
  have a: "c * 1 \<le> n + c - 1" using False assms by simp
  have "n + c - 1 < c + c" using False assms by arith
  then have b: "n + c - 1 < c * Suc 1" by (simp only: mult_Suc_right mult_1_right)
  have "(n + c - 1) div c = 1" by (rule div_nat_eqI [OF a b])
  moreover have "n - c + c - 1 = c - 1" using False by arith
  moreover have "(c - 1) div c = 0" using assms(1) by (intro div_less) arith
  ultimately show ?thesis by (simp only: One_nat_def)
qed


lemma split_chunks_Cons:
  assumes "0 < c" "xs \<noteq> []"
  shows "\<exists>rest. split_chunks c (drop c xs) = Inr rest \<and> split_chunks c xs = Inr (take c xs # rest)"
proof -
  let ?m = "(length xs - c + c - 1) div c"
  have n: "0 < length xs" using assms by simp
  have m: "(length xs + c - 1) div c = Suc ?m"
    by (rule chunk_count_step [OF assms(1) n])
  have upt: "[0..<Suc ?m] = 0 # map Suc [0..<?m]"
    by (simp add: upt_conv_Cons map_Suc_upt del: upt_Suc)
  have tl: "map (\<lambda>i. py_slice xs i (i + c)) (map (\<lambda>j. j * c) (map Suc [0..<?m]))
            = map (\<lambda>i. py_slice (drop c xs) i (i + c)) (map (\<lambda>j. j * c) [0..<?m])"
    by (simp add: py_slice_def add.commute)
  have "split_chunks c xs = Inr (take c xs # map (\<lambda>i. py_slice (drop c xs) i (i + c)) (map (\<lambda>j. j * c) [0..<?m]))"
    using assms(1) unfolding split_chunks_def py_range_def m upt
    by (simp add: tl [simplified]) (simp add: py_slice_def)
  moreover have "split_chunks c (drop c xs) = Inr (map (\<lambda>i. py_slice (drop c xs) i (i + c)) (map (\<lambda>j. j * c) [0..<?m]))"
    using assms(1) by (simp add: split_chunks_def py_range_def)
  ultimately show ?thesis by blast
qed

lemma slice_assign_block:
  "slice_assign (filled @ replicate n NaN) (length filled) (length filled + length vals) vals
     = Inr (filled @ vals @ replicate (n - length vals) NaN)"
  if "length vals \<le> n"
  using that by (simp add: slice_assign_def Let_def min_def max_def)

lemma place_all_in_order:
  assumes "0 < c"
  shows "split_chunks c xs = Inr chunks \<Longrightarrow> (xs \<noteq> [] \<longrightarrow> length filled = i * c) \<Longrightarrow>
    place_all c (enumerate i (map (\<lambda>ch. solve_rows f ch []) chunks)) (filled @ replicate (length xs) NaN)
      = (case solve_rows f xs [] of Inl e \<Rightarrow> Inl e | Inr vs \<Rightarrow> Inr (filled @ vs))"
proof (induction "length xs" arbitrary: xs chunks filled i rule: less_induct)
  case less
  show ?case
  proof (cases "xs = []")
    case True
    with less.prems assms show ?thesis by (simp add: split_chunks_Nil)
  next
    case False
    from split_chunks_Cons [OF assms False] less.prems(1)
    obtain rest where rest: "split_chunks c (drop c xs) = Inr rest" "chunks = take c xs # rest"
      by auto
    have len: "length filled = i * c" using less.prems(2) False by simp
    have xs: "xs = take c xs @ drop c xs" by simp
    show ?thesis
    proof (cases "solve_rows f (take c xs) []")
      case (Inl e)
      moreover from Inl have "solve_rows f xs [] = Inl e"
        by (subst xs, subst solve_rows_append) simp
      ultimately show ?thesis by (simp add: rest)
    next
      case (Inr result)
      have lr: "length result = min c (length xs)"
        using solve_rows_length [OF Inr] by (simp add: min.commute)
      have sa: "slice_assign (filled @ replicate (length xs) NaN) (i * c) (i * c + length result) result
                = Inr ((filled @ result) @ replicate (length (drop c xs)) NaN)"
        using slice_assign_block [of result "length xs" "filled"] lr len by (simp add: min_def)
      have smaller: "length (drop c xs) < length xs" using False assms by simp
      have pre': "drop c xs \<noteq> [] \<longrightarrow> length (filled @ result) = Suc i * c"
        using lr len by (auto simp: min_def)
      have ih: "place_all c (enumerate (Suc i) (map (\<lambda>ch. solve_rows f ch []) rest))
                  ((filled @ result) @ replicate (length (drop c xs)) NaN)
                = (case solve_rows f (drop c xs) [] of Inl e \<Rightarrow> Inl e
                   | Inr vs \<Rightarrow> Inr ((filled @ result) @ vs))"
        by (rule less.hyps [OF smaller rest(1) pre'])
      have seq: "solve_rows f xs [] = (case solve_rows f (drop c xs) [] of Inl e \<Rightarrow> Inl e
                   | Inr ws \<Rightarrow> Inr (result @ ws))"
        by (subst xs, subst solve_rows_append) (simp add: Inr)
      show ?thesis
        using ih by (simp add: rest Inr sa seq Let_def split: sum.splits)
    qed
  qed
qed

lemma main_iv_sequential:
  assumes "0 < c" "1 \<le> W"
  shows "main_iv N brentq W c all_args = solve_iv_chunk N brentq all_args"
proof -
  from assms(1) obtain chunks where ch: "split_chunks c all_args = Inr chunks"
    by (auto simp: split_chunks_def py_range_def)
  from place_all_in_order [OF assms(1) ch, of "[]" 0 "solve_iv N brentq"]
  have "place_all c (enumerate 0 (map (solve_iv_chunk N brentq) chunks)) (replicate (length all_args) NaN)
        = solve_iv_chunk N brentq all_args"
    by (simp add: solve_iv_chunk_def [abs_def] split: sum.splits)
  with assms(2) ch show ?thesis
    by (simp add: main_iv_def pool_imap_def)
qed

lemma slice_assign_inside:
  assumes "s + length vals \<le> length arr"
  shows "\<exists>arr1. slice_assign arr s (s + length vals) vals = Inr arr1 \<and> length arr1 = length arr
          \<and> (\<forall>k<length arr. arr1 ! k = (if s \<le> k \<and> k < s + length vals then vals ! (k - s) else arr ! k))"
proof -
  let ?arr1 = "take s arr @ vals @ drop (s + length vals) arr"
  have "slice_assign arr s (s + length vals) vals = Inr ?arr1"
    using assms by (simp add: slice_assign_def Let_def min_def max_def)
  moreover have "length ?arr1 = length arr" using assms by simp
  moreover have "?arr1 ! k = (if s \<le> k \<and> k < s + length vals then vals ! (k - s) else arr ! k)"
    if "k < length arr" for k
    using that assms by (auto simp: nth_append min_def)
  ultimately show ?thesis by blast
qed

lemma solve_rows_take_drop:
  assumes "solve_rows f xs [] = Inr vs"
  shows "solve_rows f (take a xs) [] = Inr (take a vs) \<and> solve_rows f (drop a xs) [] = Inr (drop a vs)"
proof -
  have "solve_rows f (take a xs @ drop a xs) [] = Inr vs" using assms by simp
  then have "(case solve_rows f (take a xs) [] of Inl e \<Rightarrow> Inl e
     | Inr v1 \<Rightarrow> (case solve_rows f (drop a xs) [] of Inl e \<Rightarrow> Inl e | Inr v2 \<Rightarrow> Inr (v1 @ v2)))
     = Inr vs"
    by (simp only: solve_rows_append)
  then obtain v1 v2 where v: "solve_rows f (take a xs) [] = Inr v1"
    "solve_rows f (drop a xs) [] = Inr v2" "vs = v1 @ v2"
    by (auto split: sum.splits)
  from solve_rows_length [OF v(1)] have l1: "length v1 = min (length xs) a" by simp
  from solve_rows_length [OF assms] have l: "length vs = length xs" .
  have "take a vs = v1" using v(3) l1 l by (auto simp: min_def)
  moreover have "drop a vs = v2" using v(3) l1 l by (auto simp: min_def)
  ultimately show ?thesis using v by simp
qed

lemma chunk_index_less:
  assumes "0 < (c::nat)"
  shows "(j < (n + c - 1) div c) = (j * c < n)" and "(j < (n + c - Suc 0) div c) = (j * c < n)"
proof -
  show "(j < (n + c - 1) div c) = (j * c < n)"
  proof -
  have "(j < (n + c - 1) div c) = (Suc j \<le> (n + c - 1) div c)" by auto
  also have "\<dots> = (Suc j * c \<le> n + c - 1)"
    using assms by (simp add: less_eq_div_iff_mult_less_eq)
  also have "\<dots> = (j * c < n)" using assms by auto
  finally show ?thesis .
  qed
  then show "(j < (n + c - Suc 0) div c) = (j * c < n)" by simp
qed

lemma div_eq_chunk:
  assumes "0 < (c::nat)"
  shows "(k div c = j) = (j * c \<le> k \<and> k < j * c + c)"
proof
  assume "k div c = j"
  then show "j * c \<le> k \<and> k < j * c + c"
    using assms by (metis add.commute div_times_less_eq_dividend dividend_less_div_times)
next
  assume "j * c \<le> k \<and> k < j * c + c"
  then show "k div c = j" using assms by (intro div_nat_eqI) (simp_all add: mult.commute)
qed

lemma place_all_any_order:
  assumes c: "0 < c" and n: "length vs = n"
  shows "(\<And>p. p \<in> set ps \<Longrightarrow> \<exists>j. j * c < n \<and> p = (j, Inr (take c (drop (j * c) vs)))) \<Longrightarrow>
    length arr = n \<Longrightarrow>
    \<exists>arr'. place_all c ps arr = Inr arr' \<and> length arr' = n
      \<and> (\<forall>k<n. arr' ! k = (if k div c \<in> fst ` set ps then vs ! k else arr ! k))"
proof (induction ps arbitrary: arr)
  case Nil
  then show ?case by simp
next
  case (Cons p ps)
  from Cons.prems(1) [of p] obtain j where j: "j * c < n" "p = (j, Inr (take c (drop (j * c) vs)))"
    by auto
  let ?chunk = "take c (drop (j * c) vs)"
  have lc: "length ?chunk = min c (n - j * c)" using n by (simp add: min.commute)
  have "j * c + min c (n - j * c) \<le> n" using j(1) by arith
  then have fits: "j * c + length ?chunk \<le> length arr" by (simp only: lc Cons.prems(2))
  from slice_assign_inside [OF fits] obtain arr1 where arr1:
    "slice_assign arr (j * c) (j * c + length ?chunk) ?chunk = Inr arr1" "length arr1 = n"
    "\<And>k. k < n \<Longrightarrow> arr1 ! k = (if j * c \<le> k \<and> k < j * c + length ?chunk then ?chunk ! (k - j * c) else arr ! k)"
    using Cons.prems(2) by auto
  have arr1': "arr1 ! k = (if k div c = j then vs ! k else arr ! k)" if k: "k < n" for k
  proof (cases "k div c = j")
    case True
    then have rng: "j * c \<le> k" "k < j * c + length ?chunk"
      using k lc c by (auto simp: div_eq_chunk min_def)
    then have "?chunk ! (k - j * c) = vs ! k"
      using n lc by (simp add: min_def split: if_splits)
    with arr1(3) [OF k] rng True show ?thesis by auto
  next
    case False
    then have "\<not> (j * c \<le> k \<and> k < j * c + length ?chunk)"
      using k lc c by (auto simp: div_eq_chunk min_def)
    with arr1(3) [OF k] False show ?thesis by auto
  qed
  from Cons.IH [of arr1] Cons.prems(1) arr1(2)
  obtain arr' where arr': "place_all c ps arr1 = Inr arr'" "length arr' = n"
    "\<And>k. k < n \<Longrightarrow> arr' ! k = (if k div c \<in> fst ` set ps then vs ! k else arr1 ! k)"
    by auto
  have "place_all c (p # ps) arr = Inr arr'"
    using arr1(1) arr'(1) by (simp add: j(2) Let_def)
  moreover have "arr' ! k = (if k div c \<in> fst ` set (p # ps) then vs ! k else arr ! k)" if "k < n" for k
    using arr'(3) [OF that] arr1' [OF that] by (auto simp: j(2))
  ultimately show ?case using arr'(2) by blast
qed

lemma main_iv_any_order:
  assumes c: "0 < c" and chunks: "split_chunks c all_args = Inr chunks"
    and seq: "solve_iv_chunk N brentq all_args = Inr vs"
    and ps: "set ps = set (enumerate 0 (map (solve_iv_chunk N brentq) chunks))"
  shows "place_all c ps (replicate (length all_args) NaN) = Inr vs"
proof -
  let ?n = "length all_args"
  let ?m = "(?n + c - 1) div c"
  have n: "length vs = ?n" using seq solve_rows_length by (auto simp: solve_iv_chunk_def)
  have ch: "chunks = map (\<lambda>j. take c (drop (j * c) all_args)) [0..<?m]"
    using chunks c by (auto simp: split_chunks_def py_range_def py_slice_def)
  have out: "solve_iv_chunk N brentq (take c (drop (j * c) all_args)) = Inr (take c (drop (j * c) vs))" for j
    using seq solve_rows_take_drop unfolding solve_iv_chunk_def by metis
  have en: "enumerate 0 (map (solve_iv_chunk N brentq) chunks)
            = map (\<lambda>j. (j, Inr (take c (drop (j * c) vs)))) [0..<?m]"
    by (simp add: ch enumerate_eq_zip out o_def zip_map2 zip_same_conv_map)
  have mem: "\<exists>j. j * c < ?n \<and> p = (j, Inr (take c (drop (j * c) vs)))" if "p \<in> set ps" for p
    using that unfolding ps en by (auto simp: chunk_index_less [OF c])
  from place_all_any_order [OF c n mem, of ps "replicate ?n NaN"]
  obtain arr' where arr': "place_all c ps (replicate ?n NaN) = Inr arr'" "length arr' = ?n"
    "\<And>k. k < ?n \<Longrightarrow> arr' ! k = (if k div c \<in> fst ` set ps then vs ! k else replicate ?n NaN ! k)"
    by auto
  have "k div c \<in> fst ` set ps" if "k < ?n" for k
  proof -
    have "(k div c) * c < ?n" using that c by (meson div_times_less_eq_dividend le_less_trans)
    then have "k div c < ?m" using chunk_index_less(1) [OF c] by simp
    then show ?thesis unfolding ps en by (auto simp: image_iff)
  qed
  with arr'(3) have "arr' ! k = vs ! k" if "k < ?n" for k using that by simp
  with arr'(2) n have "arr' = vs" by (intro nth_equalityI) simp_all
  with arr'(1) show ?thesis by simp
qed

text \<open>
  C3. For every list of row arguments, every chunk size (at least 1) and every
  worker count (at least 1), splitting the list into contiguous chunks of that
  size, solving every chunk and writing each chunk's results at the chunk's start
  offset gives exactly what solving the whole list row by row gives: the same
  array in the input order, or the same exception when a row's solve raises. The
  order in which the chunks' results are written does not matter: written in
  any order, each at its own offset, they give the same array.
\<close>

theorem main_iv_order_preserved:
  assumes "0 < sub_chunk" "1 \<le> n_workers"
  shows "main_iv N brentq n_workers sub_chunk all_args = solve_iv_chunk N brentq all_args
       \<and> (\<forall>chunks vs ps.
            split_chunks sub_chunk all_args = Inr chunks
            \<and> solve_iv_chunk N brentq all_args = Inr vs
            \<and> set ps = set (enumerate 0 (map (solve_iv_chunk N brentq) chunks))
            \<longrightarrow> length vs = length all_args
                \<and> place_all sub_chunk ps (replicate (length all_args) NaN) = Inr vs)"
  using main_iv_sequential [OF assms] main_iv_any_order [OF assms(1)] solve_rows_length
  unfolding solve_iv_chunk_def by blast

lemma solve_iv_examples:
  "solve_iv test_norm test_brentq (Fin 1, Fin 1, Fin 1, Fin 0, Fin 0, Fin (1/2), True) = Inr IV_LOWER"
  "solve_iv test_norm test_brentq (Fin 1, Fin 1, Fin 0, Fin 0, Fin 0, Fin (1/2), True) = Inr NaN"
  "solve_iv test_norm test_brentq (Fin 1, Fin 1, Fin 1, Fin 0, Fin 0, Fin 1, True) = Inr IV_UPPER"
  by (simp_all add: solve_iv_def solve_iv_traced_def Let_def bs_price_def IV_LOWER_def IV_UPPER_def
        fl_ops py_pow2_def test_brentq_def except_to_nan_def signed_inf_def)

theorem main_iv_order_preserved_witness:
  "0 < (2::nat) \<and> 1 \<le> (3::nat)
   \<and> main_iv test_norm test_brentq 3 2
        [(Fin 1, Fin 1, Fin 1, Fin 0, Fin 0, Fin (1/2), True),
         (Fin 1, Fin 1, Fin 0, Fin 0, Fin 0, Fin (1/2), True),
         (Fin 1, Fin 1, Fin 1, Fin 0, Fin 0, Fin 1, True)]
       = Inr [IV_LOWER, NaN, IV_UPPER]
   \<and> split_chunks 2
        [(Fin 1, Fin 1, Fin 1, Fin 0, Fin 0, Fin (1/2), True),
         (Fin 1, Fin 1, Fin 0, Fin 0, Fin 0, Fin (1/2), True),
         (Fin 1, Fin 1, Fin 1, Fin 0, Fin 0, Fin 1, True)]
       = Inr [[(Fin 1, Fin 1, Fin 1, Fin 0, Fin 0, Fin (1/2), True),
               (Fin 1, Fin 1, Fin 0, Fin 0, Fin 0, Fin (1/2), True)],
              [(Fin 1, Fin 1, Fin 1, Fin 0, Fin 0, Fin 1, True)]]
   \<and> place_all 2 [(1, Inr [IV_UPPER]), (0, Inr [IV_LOWER, NaN])] [NaN, NaN, NaN]
       = Inr [IV_LOWER, NaN, IV_UPPER]"
proof -
  let ?rows = "[(Fin 1, Fin 1, Fin 1, Fin 0, Fin 0, Fin (1/2), True),
         (Fin 1, Fin 1, Fin 0, Fin 0, Fin 0, Fin (1/2), True),
         (Fin 1, Fin 1, Fin 1, Fin 0, Fin 0, Fin 1, True)]"
  have h: "0 < (2::nat)" "1 \<le> (3::nat)" by simp_all
  have seq: "solve_iv_chunk test_norm test_brentq ?rows = Inr [IV_LOWER, NaN, IV_UPPER]"
    by (simp add: solve_iv_chunk_def solve_iv_examples)
  have ch: "split_chunks 2 ?rows = Inr [[(Fin 1, Fin 1, Fin 1, Fin 0, Fin 0, Fin (1/2), True),
               (Fin 1, Fin 1, Fin 0, Fin 0, Fin 0, Fin (1/2), True)],
              [(Fin 1, Fin 1, Fin 1, Fin 0, Fin 0, Fin 1, True)]]"
    by (simp add: split_chunks_def py_range_def py_slice_def upt_rec)
  have ps: "set [(1, Inr [IV_UPPER]), (0::nat, Inr [IV_LOWER, NaN])]
            = set (enumerate 0 (map (solve_iv_chunk test_norm test_brentq)
                [[(Fin 1, Fin 1, Fin 1, Fin 0, Fin 0, Fin (1/2), True),
               (Fin 1, Fin 1, Fin 0, Fin 0, Fin 0, Fin (1/2), True)],
              [(Fin 1, Fin 1, Fin 1, Fin 0, Fin 0, Fin 1, True)]]))"
    by (auto simp: solve_iv_chunk_def solve_iv_examples)
  from main_iv_order_preserved [OF h, of test_norm test_brentq ?rows] seq ch ps
  have "main_iv test_norm test_brentq 3 2 ?rows = Inr [IV_LOWER, NaN, IV_UPPER]"
    and "place_all 2 [(1, Inr [IV_UPPER]), (0, Inr [IV_LOWER, NaN])] (replicate (length ?rows) NaN)
       = Inr [IV_LOWER, NaN, IV_UPPER]"
    by (simp, blast)
  with h ch show ?thesis by simp
qed

end
